theory Spec2Isabelle
  imports Complex_Main "HOL-Library.Multiset" "HOL-Library.Char_ord"
    "HOL-Library.List_Lexorder" "HOL-Library.Product_Lexorder" "HOL-Library.Log_Nat"
begin

section \<open>Cells: the numbers a table column holds\<close>

text \<open>
  A cell of a numeric column is a missing value, an infinity or a finite number. \<open>NaN\<close>
  stands for everything pandas treats as missing (\<open>None\<close>, a key a document does not
  have, a float NaN). A finite number is held as the rational it denotes, an integer as
  the rational with denominator one. The numeric columns are 64-bit columns: the
  normalization rounds what it computes to 64-bit floats and casts to 64-bit integers,
  as written out below. Columns of other Python objects are outside the model.
\<close>

datatype cell = NaN | PInf | NInf | Fin rat

datatype py_error = ValueError | KeyError | AttributeError | TypeError

fun is_finite :: "cell \<Rightarrow> bool" where
  "is_finite (Fin x) = True"
| "is_finite _ = False"

text \<open>\<open>Series.fillna(0)\<close>, cell by cell.\<close>

fun fillna0 :: "cell \<Rightarrow> cell" where
  "fillna0 NaN = Fin 0"
| "fillna0 c = c"

text \<open>\<open>Series.replace([float('inf'), float('-inf')], 0)\<close>, cell by cell.\<close>

fun replace_inf :: "cell \<Rightarrow> cell" where
  "replace_inf PInf = Fin 0"
| "replace_inf NInf = Fin 0"
| "replace_inf c = c"

text \<open>
  numpy rounds to \<open>d\<close> decimals by scaling with \<open>10 ^ d\<close>, rounding to the nearest
  integer with halves going to the even neighbour (\<open>rint\<close>), and scaling back.
  \<open>round_to\<close> does this on the numbers as they are; it serves the percentages of the
  category breakdown. \<open>float_round\<close>, further down, rounds both scalings to 64-bit
  floats; it serves the normalization, whose input can be of any size.
\<close>

definition rint :: "rat \<Rightarrow> int" where
  "rint x =
     (let f = \<lfloor>x\<rfloor>; d = x - of_int f
      in if d < 1 / 2 then f
         else if 1 / 2 < d then f + 1
         else if even f then f else f + 1)"

definition round_to :: "nat \<Rightarrow> rat \<Rightarrow> rat" where
  "round_to d x = of_int (rint (x * 10 ^ d)) / 10 ^ d"

fun np_round :: "nat \<Rightarrow> cell \<Rightarrow> cell" where
  "np_round d (Fin x) = Fin (round_to d x)"
| "np_round d c = c"

section \<open>64-bit floats and integers\<close>

text \<open>
  The 64-bit float nearest to a rational: 53 significant bits, a half going to the even
  neighbour, the exponent of the leading bit from -1022 (below it the spacing stays at
  \<open>2 powi -1074\<close>) to 1023, and an infinity in place of a result of magnitude
  \<open>2 ^ 1024\<close> or more. \<open>flog2 x\<close> is the exponent of the leading bit of \<open>x\<close>,
  \<open>ulp x\<close> the spacing of the floats around \<open>x\<close>.
\<close>

definition flog2 :: "rat \<Rightarrow> int" where
  "flog2 x =
     (let (p, q) = quotient_of \<bar>x\<bar>; d = bitlen p - bitlen q
      in if 2 powi d \<le> \<bar>x\<bar> then d else d - 1)"

definition ulp :: "rat \<Rightarrow> rat" where
  "ulp x = 2 powi (max (flog2 x) (- 1022) - 52)"

definition round_double :: "rat \<Rightarrow> cell" where
  "round_double x =
     (if x = 0 then Fin 0
      else
        let y = of_int (rint (x / ulp x)) * ulp x
        in if 2 ^ 1024 \<le> \<bar>y\<bar> then (if 0 < x then PInf else NInf) else Fin y)"

text \<open>
  \<open>Series.round(d)\<close> on a float column: the product with \<open>10 ^ d\<close> as a float,
  \<open>rint\<close> of it, the quotient by \<open>10 ^ d\<close> as a float. A product that overflows
  is an infinity, and stays one.
\<close>

definition float_round :: "nat \<Rightarrow> cell \<Rightarrow> cell" where
  "float_round d c =
     (case c of
        Fin x \<Rightarrow>
          (case round_double (x * 10 ^ d) of
             Fin y \<Rightarrow> round_double (of_int (rint y) / 10 ^ d)
           | c' \<Rightarrow> c')
      | c' \<Rightarrow> c')"

text \<open>
  \<open>astype(int)\<close> casts to 64-bit integers: it truncates a finite number towards zero
  and raises on a column that still holds a missing value or an infinity. A float
  beyond the 64-bit range comes out as \<open>- 2 ^ 63\<close>, which is what the conversion
  of the processor returns for it. (A Python integer beyond the range makes the column a
  column of Python objects, whose cast raises; such a column is outside the model.)
\<close>

definition trunc :: "rat \<Rightarrow> int" where
  "trunc x = (if 0 \<le> x then \<lfloor>x\<rfloor> else \<lceil>x\<rceil>)"

definition int64_cast :: "rat \<Rightarrow> int" where
  "int64_cast x = (let k = trunc x in if - (2 ^ 63) \<le> k \<and> k < 2 ^ 63 then k else - (2 ^ 63))"

fun astype_int :: "cell list \<Rightarrow> py_error + cell list" where
  "astype_int [] = Inr []"
| "astype_int (Fin x # cs) =
     (case astype_int cs of
        Inl e \<Rightarrow> Inl e
      | Inr ds \<Rightarrow> Inr (Fin (of_int (int64_cast x)) # ds))"
| "astype_int (c # cs) = Inl ValueError"

section \<open>Documents, rows and tables\<close>

text \<open>
  A value of a stored document: null, a string, a number or a timestamp. A document is
  a Python dict, a finite map from keys to values; \<open>get_key\<close> is \<open>dict.get\<close>.
\<close>

datatype val = VNone | VStr string | VNum cell | VDate int

type_synonym doc = "string \<rightharpoonup> val"

definition get_key :: "doc \<Rightarrow> string \<Rightarrow> val" where
  "get_key d k = (case d k of None \<Rightarrow> VNone | Some v \<Rightarrow> v)"

text \<open>
  A row of the table, with the columns the dashboard reads. The text columns hold a
  string or null, the five numeric columns hold cells, the four metadata columns hold
  whatever value was assigned. The table records which columns it has; the field of a
  column the table does not have carries no meaning.
\<close>

record row =
  full_name :: "string option"
  category :: "string option"
  growth_percent :: cell
  growth_per_day :: cell
  start_stars :: cell
  end_stars :: cell
  star_growth :: cell
  analysis_date :: val
  analysis_period_days :: val
  analysis_start_date :: val
  analysis_end_date :: val

record dataframe =
  columns :: "string set"
  rows :: "row list"

text \<open>\<open>df.empty\<close>: no column or no row.\<close>

definition df_empty :: "dataframe \<Rightarrow> bool" where
  "df_empty df = (columns df = {} \<or> rows df = [])"

text \<open>Reading and writing a numeric column by its name: \<open>df[col]\<close> and \<open>df[col] = series\<close>.\<close>

definition getc :: "string \<Rightarrow> row \<Rightarrow> cell" where
  "getc c r =
     (if c = ''growth_percent'' then growth_percent r
      else if c = ''growth_per_day'' then growth_per_day r
      else if c = ''start_stars'' then start_stars r
      else if c = ''end_stars'' then end_stars r
      else if c = ''star_growth'' then star_growth r
      else NaN)"

definition setc :: "string \<Rightarrow> cell \<Rightarrow> row \<Rightarrow> row" where
  "setc c v r =
     (if c = ''growth_percent'' then r\<lparr>growth_percent := v\<rparr>
      else if c = ''growth_per_day'' then r\<lparr>growth_per_day := v\<rparr>
      else if c = ''start_stars'' then r\<lparr>start_stars := v\<rparr>
      else if c = ''end_stars'' then r\<lparr>end_stars := v\<rparr>
      else if c = ''star_growth'' then r\<lparr>star_growth := v\<rparr>
      else r)"

definition column :: "string \<Rightarrow> dataframe \<Rightarrow> cell list" where
  "column c df = map (getc c) (rows df)"

definition assign :: "string \<Rightarrow> cell list \<Rightarrow> dataframe \<Rightarrow> dataframe" where
  "assign c vs df = df\<lparr>columns := insert c (columns df), rows := map2 (setc c) vs (rows df)\<rparr>"

section \<open>Normalization: \<open>format_metrics\<close>\<close>

text \<open>
  The two float columns: fill missing values, replace infinities, round to 2 decimals.
  The column is read as a column of 64-bit floats. pandas makes an integer column of a
  batch whose values are all integers, and the three steps return such a column as it
  is; \<open>float_round 2\<close> does so too for the integers of magnitude up to
  \<open>2 ^ 53 / 100\<close>, whose product with 100 is exact.
\<close>

definition format_float_column :: "string \<Rightarrow> dataframe \<Rightarrow> dataframe" where
  "format_float_column c df =
     (if c \<in> columns df then
        let df1 = assign c (map fillna0 (column c df)) df;
            df2 = assign c (map replace_inf (column c df1)) df1
        in assign c (map (float_round 2) (column c df2)) df2
      else df)"

text \<open>The loop over the star columns: fill, replace, cast to integer.\<close>

definition star_columns :: "string list" where
  "star_columns = [''start_stars'', ''end_stars'', ''star_growth'']"

fun format_star_columns :: "string list \<Rightarrow> dataframe \<Rightarrow> py_error + dataframe" where
  "format_star_columns [] df = Inr df"
| "format_star_columns (c # cs) df =
     (if c \<in> columns df then
        let df1 = assign c (map fillna0 (column c df)) df;
            df2 = assign c (map replace_inf (column c df1)) df1
        in (case astype_int (column c df2) of
              Inl e \<Rightarrow> Inl e
            | Inr vs \<Rightarrow> format_star_columns cs (assign c vs df2))
      else format_star_columns cs df)"

definition format_metrics :: "dataframe option \<Rightarrow> py_error + dataframe option" where
  "format_metrics dfo =
     (case dfo of
        None \<Rightarrow> Inr None
      | Some df \<Rightarrow>
          if df_empty df then Inr (Some df)
          else
            let df1 = format_float_column ''growth_percent'' df;
                df2 = format_float_column ''growth_per_day'' df1
            in (case format_star_columns star_columns df2 of
                  Inl e \<Rightarrow> Inl e
                | Inr df3 \<Rightarrow> Inr (Some df3)))"


text \<open>
  What normalization does to one cell of a float column and of a star column, and to one
  row: these restate the column operations above cell by cell and serve the proofs.
\<close>

definition sanitize_float :: "cell \<Rightarrow> cell" where
  "sanitize_float c = float_round 2 (replace_inf (fillna0 c))"

fun int_cast :: "cell \<Rightarrow> cell" where
  "int_cast (Fin x) = Fin (of_int (int64_cast x))"
| "int_cast c = c"

definition sanitize_star :: "cell \<Rightarrow> cell" where
  "sanitize_star c = int_cast (replace_inf (fillna0 c))"

definition numeric_columns :: "string set" where
  "numeric_columns =
     {''growth_percent'', ''growth_per_day'', ''start_stars'', ''end_stars'', ''star_growth''}"

definition float_columns :: "string set" where
  "float_columns = {''growth_percent'', ''growth_per_day''}"

definition map_cell :: "string \<Rightarrow> (cell \<Rightarrow> cell) \<Rightarrow> dataframe \<Rightarrow> dataframe" where
  "map_cell c f df =
     (if c \<in> columns df then df\<lparr>rows := map (\<lambda>r. setc c (f (getc c r)) r) (rows df)\<rparr>
      else df)"

definition normalize_row :: "string set \<Rightarrow> row \<Rightarrow> row" where
  "normalize_row cols = (\<lambda>r.
     r\<lparr>growth_percent :=
         (if ''growth_percent'' \<in> cols then sanitize_float (growth_percent r)
          else growth_percent r),
       growth_per_day :=
         (if ''growth_per_day'' \<in> cols then sanitize_float (growth_per_day r)
          else growth_per_day r),
       start_stars :=
         (if ''start_stars'' \<in> cols then sanitize_star (start_stars r) else start_stars r),
       end_stars :=
         (if ''end_stars'' \<in> cols then sanitize_star (end_stars r) else end_stars r),
       star_growth :=
         (if ''star_growth'' \<in> cols then sanitize_star (star_growth r)
          else star_growth r)\<rparr>)"

text \<open>
  The size of the values of a table: \<open>cell_within b c\<close> holds of a finite cell of
  magnitude at most \<open>b\<close> (and of a missing value or an infinity, which the
  normalization replaces by 0).
\<close>

definition cell_within :: "rat \<Rightarrow> cell \<Rightarrow> bool" where
  "cell_within b c = (case c of Fin x \<Rightarrow> \<bar>x\<bar> \<le> b | _ \<Rightarrow> True)"

definition growth_within :: "rat \<Rightarrow> dataframe \<Rightarrow> bool" where
  "growth_within b df =
     (\<forall>r \<in> set (rows df). cell_within b (growth_percent r) \<and> cell_within b (growth_per_day r))"

definition stars_in_int64 :: "dataframe \<Rightarrow> bool" where
  "stars_in_int64 df =
     (\<forall>r \<in> set (rows df).
        cell_within (2 ^ 63 - 1) (start_stars r) \<and> cell_within (2 ^ 63 - 1) (end_stars r)
        \<and> cell_within (2 ^ 63 - 1) (star_growth r))"

section \<open>Retrieval: merging the categories into the documents\<close>

text \<open>
  \<open>get_latest_analysis\<close> holds the retrieved documents as a list of dict objects and
  writes into them. The store maps the address of each dict to its content; the batch is
  the list of addresses. \<open>repo_categories\<close> is the dict built from the repositories
  collection, keyed by the full name (any value, null included).
\<close>

type_synonym store = "nat \<Rightarrow> doc"

fun merge_loop :: "(val \<rightharpoonup> val) \<Rightarrow> nat list \<Rightarrow> store \<Rightarrow> store" where
  "merge_loop repo_categories [] s = s"
| "merge_loop repo_categories (a # as) s =
     (let repo_analysis = s a;
          fn = get_key repo_analysis ''full_name''
      in merge_loop repo_categories as
           (s(a := (case repo_categories fn of
                      Some c \<Rightarrow> repo_analysis(''category'' \<mapsto> c)
                    | None \<Rightarrow> repo_analysis(''category'' \<mapsto> VNone)))))"

text \<open>The function returns the list it was given: the same addresses, in the same order.\<close>

definition merge_categories ::
  "(val \<rightharpoonup> val) \<Rightarrow> nat list \<Rightarrow> store \<Rightarrow> nat list \<times> store" where
  "merge_categories repo_categories latest_analysis s =
     (latest_analysis, merge_loop repo_categories latest_analysis s)"


section \<open>Conversion: \<open>convert_analysis_to_dataframe\<close>\<close>

text \<open>
  \<open>pd.DataFrame(analysis_data)\<close> has one row per document and one column per key that
  some document has; a key a document lacks reads as missing in its row. The numeric
  columns are taken to hold numbers or nulls and the text columns strings or nulls, as
  the data model says; other objects in those columns are outside the model and read as
  missing.
\<close>

definition text_of :: "val \<Rightarrow> string option" where
  "text_of v = (case v of VStr s \<Rightarrow> Some s | _ \<Rightarrow> None)"

definition num_of :: "val \<Rightarrow> cell" where
  "num_of v = (case v of VNum c \<Rightarrow> c | _ \<Rightarrow> NaN)"

definition row_of :: "doc \<Rightarrow> row" where
  "row_of d =
     \<lparr>full_name = text_of (get_key d ''full_name''),
      category = text_of (get_key d ''category''),
      growth_percent = num_of (get_key d ''growth_percent''),
      growth_per_day = num_of (get_key d ''growth_per_day''),
      start_stars = num_of (get_key d ''start_stars''),
      end_stars = num_of (get_key d ''end_stars''),
      star_growth = num_of (get_key d ''star_growth''),
      analysis_date = get_key d ''analysis_date'',
      analysis_period_days = get_key d ''analysis_period_days'',
      analysis_start_date = get_key d ''analysis_start_date'',
      analysis_end_date = get_key d ''analysis_end_date''\<rparr>"

definition DataFrame :: "doc list \<Rightarrow> dataframe" where
  "DataFrame docs = \<lparr>columns = (\<Union>d \<in> set docs. dom d), rows = map row_of docs\<rparr>"

text \<open>\<open>df[col] = value\<close> for the four metadata columns: one value for every row.\<close>

definition set_meta :: "string \<Rightarrow> val \<Rightarrow> row \<Rightarrow> row" where
  "set_meta c v r =
     (if c = ''analysis_date'' then r\<lparr>analysis_date := v\<rparr>
      else if c = ''analysis_period_days'' then r\<lparr>analysis_period_days := v\<rparr>
      else if c = ''analysis_start_date'' then r\<lparr>analysis_start_date := v\<rparr>
      else if c = ''analysis_end_date'' then r\<lparr>analysis_end_date := v\<rparr>
      else r)"

definition assign_scalar :: "string \<Rightarrow> val \<Rightarrow> dataframe \<Rightarrow> dataframe" where
  "assign_scalar c v df =
     df\<lparr>columns := insert c (columns df), rows := map (set_meta c v) (rows df)\<rparr>"

definition convert_analysis_to_dataframe :: "doc list \<Rightarrow> dataframe option" where
  "convert_analysis_to_dataframe analysis_data =
     (case analysis_data of
        [] \<Rightarrow> None
      | first_doc # _ \<Rightarrow>
          let df = DataFrame analysis_data
          in Some (if \<not> df_empty df then
                     assign_scalar ''analysis_end_date'' (get_key first_doc ''analysis_end_date'')
                       (assign_scalar ''analysis_start_date''
                          (get_key first_doc ''analysis_start_date'')
                          (assign_scalar ''analysis_period_days''
                             (get_key first_doc ''analysis_period_days'')
                             (assign_scalar ''analysis_date''
                                (get_key first_doc ''analysis_date'') df)))
                   else df))"


section \<open>Strings: \<open>str.lower\<close> and \<open>str.capitalize\<close>\<close>

text \<open>
  Strings are byte strings and only the ASCII letters have a case; the case rules of
  other scripts are outside the model.
\<close>

definition lower_char :: "char \<Rightarrow> char" where
  "lower_char c =
     (if CHR ''A'' \<le> c \<and> c \<le> CHR ''Z'' then char_of (of_char c + (32::nat)) else c)"

definition upper_char :: "char \<Rightarrow> char" where
  "upper_char c =
     (if CHR ''a'' \<le> c \<and> c \<le> CHR ''z'' then char_of (of_char c - (32::nat)) else c)"

definition lower :: "string \<Rightarrow> string" where
  "lower s = map lower_char s"

fun capitalize :: "string \<Rightarrow> string" where
  "capitalize [] = []"
| "capitalize (c # cs) = upper_char c # lower cs"

text \<open>\<open>cat.capitalize() if cat else cat\<close> and \<open>cat.lower() if cat else cat\<close>.\<close>

definition capitalize_if :: "string \<Rightarrow> string" where
  "capitalize_if cat = (if cat \<noteq> [] then capitalize cat else cat)"

definition lower_if :: "string \<Rightarrow> string" where
  "lower_if cat = (if cat \<noteq> [] then lower cat else cat)"

section \<open>Filters\<close>

text \<open>
  \<open>dropna\<close> keeps the non-null categories, \<open>unique\<close> the first occurrence of each
  value in order of appearance.
\<close>

definition dropna_category :: "row list \<Rightarrow> string list" where
  "dropna_category rs = List.map_filter category rs"

definition unique_vals :: "'a list \<Rightarrow> 'a list" where
  "unique_vals xs = rev (remdups (rev xs))"

text \<open>\<open>sorted(df['category'].dropna().unique())\<close> and the options shown for it.\<close>

definition categories_of :: "dataframe \<Rightarrow> string list" where
  "categories_of df = sort (unique_vals (dropna_category (rows df)))"

definition categories_capitalized :: "dataframe \<Rightarrow> string list" where
  "categories_capitalized df = map capitalize_if (categories_of df)"

text \<open>
  \<open>chosen\<close> is what the multiselect returned: some of the options it was given. The
  selection used for filtering is its lower-cased form, or the empty list when the
  table has no category column.
\<close>

definition selected_categories :: "dataframe \<Rightarrow> string list \<Rightarrow> string list" where
  "selected_categories df chosen =
     (if ''category'' \<in> columns df then map lower_if chosen else [])"

text \<open>\<open>Series.isin(values)\<close> on the category column: a null is in no list of strings.\<close>

definition isin :: "string option \<Rightarrow> string list \<Rightarrow> bool" where
  "isin c vs = (case c of None \<Rightarrow> False | Some s \<Rightarrow> s \<in> set vs)"

text \<open>\<open>series >= threshold\<close>: false on a missing value.\<close>

fun ge_cell :: "cell \<Rightarrow> rat \<Rightarrow> bool" where
  "ge_cell NaN t = False"
| "ge_cell PInf t = True"
| "ge_cell NInf t = False"
| "ge_cell (Fin x) t = (t \<le> x)"

text \<open>\<open>df[mask]\<close>: the rows where the mask holds, the columns unchanged.\<close>

definition boolean_mask :: "(row \<Rightarrow> bool) \<Rightarrow> dataframe \<Rightarrow> dataframe" where
  "boolean_mask p df = df\<lparr>rows := filter p (rows df)\<rparr>"

definition filter_by_category :: "dataframe \<Rightarrow> string list \<Rightarrow> dataframe" where
  "filter_by_category df chosen =
     (let selected = selected_categories df chosen
      in if selected \<noteq> [] \<and> length selected < length (categories_of df)
         then boolean_mask (\<lambda>r. isin (category r) selected) df
         else df)"

definition filter_by_thresholds :: "rat \<Rightarrow> int \<Rightarrow> int \<Rightarrow> dataframe \<Rightarrow> dataframe" where
  "filter_by_thresholds min_growth min_star_growth min_end_stars df =
     (let f1 = (if 0 < min_growth
                then boolean_mask (\<lambda>r. ge_cell (growth_percent r) min_growth) df else df);
          f2 = (if 0 < min_star_growth
                then boolean_mask (\<lambda>r. ge_cell (star_growth r) (of_int min_star_growth)) f1 else f1)
      in if 0 < min_end_stars
         then boolean_mask (\<lambda>r. ge_cell (end_stars r) (of_int min_end_stars)) f2 else f2)"


section \<open>Category breakdown\<close>

text \<open>
  Arithmetic on cells as pandas does it on float columns: a sum skips missing values,
  a division by zero gives an infinity with the sign of the numerator, or a missing
  value when the numerator is zero as well.
\<close>

fun cell_add :: "cell \<Rightarrow> cell \<Rightarrow> cell" where
  "cell_add (Fin a) (Fin b) = Fin (a + b)"
| "cell_add NaN _ = NaN"
| "cell_add _ NaN = NaN"
| "cell_add PInf NInf = NaN"
| "cell_add NInf PInf = NaN"
| "cell_add PInf _ = PInf"
| "cell_add _ PInf = PInf"
| "cell_add NInf _ = NInf"
| "cell_add _ NInf = NInf"

definition cell_sum :: "cell list \<Rightarrow> cell" where
  "cell_sum cs = foldl cell_add (Fin 0) (filter (\<lambda>c. c \<noteq> NaN) cs)"

fun cell_neg :: "cell \<Rightarrow> cell" where
  "cell_neg PInf = NInf"
| "cell_neg NInf = PInf"
| "cell_neg c = c"

fun cell_div :: "cell \<Rightarrow> cell \<Rightarrow> cell" where
  "cell_div (Fin a) (Fin b) =
     (if b \<noteq> 0 then Fin (a / b)
      else if 0 < a then PInf else if a < 0 then NInf else NaN)"
| "cell_div NaN _ = NaN"
| "cell_div _ NaN = NaN"
| "cell_div (Fin a) _ = Fin 0"
| "cell_div c (Fin b) = (if 0 \<le> b then c else cell_neg c)"
| "cell_div _ _ = NaN"

fun cell_mul :: "cell \<Rightarrow> cell \<Rightarrow> cell" where
  "cell_mul (Fin a) (Fin b) = Fin (a * b)"
| "cell_mul NaN _ = NaN"
| "cell_mul _ NaN = NaN"
| "cell_mul (Fin a) c = (if 0 < a then c else if a < 0 then cell_neg c else NaN)"
| "cell_mul c (Fin b) = (if 0 < b then c else if b < 0 then cell_neg c else NaN)"
| "cell_mul PInf c = c"
| "cell_mul NInf c = cell_neg c"

text \<open>
  \<open>value_counts()\<close>: the count of every non-null category, largest count first. The
  order among equal counts is taken to be the order of first appearance; nothing
  proved below depends on the order.
\<close>

definition value_counts :: "string list \<Rightarrow> (string \<times> nat) list" where
  "value_counts cs =
     sort_key (\<lambda>(c, n). - int n) (map (\<lambda>c. (c, count_list cs c)) (unique_vals cs))"

text \<open>\<open>groupby('category')['star_growth'].sum()\<close>: one sum per non-null category, keys sorted.\<close>

definition groupby_sum :: "row list \<Rightarrow> (string \<times> cell) list" where
  "groupby_sum rs =
     map (\<lambda>c. (c, cell_sum (map star_growth (filter (\<lambda>r. category r = Some c) rs))))
       (sort (unique_vals (dropna_category rs)))"

text \<open>The dict comprehension over the sums: a later item with the same key wins.\<close>

definition capitalized_dict :: "(string \<times> cell) list \<Rightarrow> (string \<rightharpoonup> cell)" where
  "capitalized_dict items = map_of (rev (map (\<lambda>(cat, v). (capitalize_if cat, v)) items))"

text \<open>\<open>Series.map(dict)\<close>: a label the dict lacks maps to a missing value.\<close>

definition map_dict :: "(string \<rightharpoonup> cell) \<Rightarrow> string \<Rightarrow> cell" where
  "map_dict m k = (case m k of None \<Rightarrow> NaN | Some v \<Rightarrow> v)"

record stats =
  Category :: string
  Count :: nat
  Percentage :: cell
  Star_Flow :: cell
  Percent_of_Star_Flow :: cell

definition percent_of :: "cell \<Rightarrow> cell \<Rightarrow> cell" where
  "percent_of part whole = np_round 1 (cell_mul (cell_div part whole) (Fin 100))"

definition category_stats :: "dataframe \<Rightarrow> stats list" where
  "category_stats filtered_df =
     (let category_counts = value_counts (dropna_category (rows filtered_df));
          labels = map (\<lambda>(cat, n). capitalize_if cat) category_counts;
          flow_dict = capitalized_dict (groupby_sum (rows filtered_df));
          star_flow = map (map_dict flow_dict) labels;
          total_star_flow = cell_sum star_flow
      in map (\<lambda>(cat, n).
               \<lparr>Category = capitalize_if cat,
                Count = n,
                Percentage =
                  percent_of (Fin (of_nat n)) (Fin (of_nat (length (rows filtered_df)))),
                Star_Flow = map_dict flow_dict (capitalize_if cat),
                Percent_of_Star_Flow =
                  percent_of (map_dict flow_dict (capitalize_if cat)) total_star_flow\<rparr>)
           category_counts)"

text \<open>The breakdown is shown for a non-empty table that has a category column.\<close>

definition category_breakdown :: "dataframe \<Rightarrow> stats list option" where
  "category_breakdown filtered_df =
     (if \<not> df_empty filtered_df \<and> ''category'' \<in> columns filtered_df
      then Some (category_stats filtered_df) else None)"

text \<open>The number of records of a category, counted on the rows themselves.\<close>

definition category_count :: "row list \<Rightarrow> string \<Rightarrow> nat" where
  "category_count rs c = length (filter (\<lambda>r. category r = Some c) rs)"

section \<open>Top performers: \<open>nlargest\<close>\<close>

text \<open>
  \<open>DataFrame.nlargest(n, column)\<close> is pandas' own code; it is modelled from its
  documentation: the \<open>n\<close> rows with the largest values of the column, largest first,
  the first occurrence taking priority among equal values, missing values last. Each
  selected row comes with its position in the table, as pandas keeps the index label.
  The selection picks, \<open>n\<close> times, the first row that holds the largest remaining value.
\<close>

fun cell_rank :: "cell \<Rightarrow> nat \<times> rat" where
  "cell_rank NaN = (0, 0)"
| "cell_rank NInf = (1, 0)"
| "cell_rank (Fin x) = (2, x)"
| "cell_rank PInf = (3, 0)"

fun first_max :: "('a \<Rightarrow> 'k::linorder) \<Rightarrow> 'a \<Rightarrow> 'a list \<Rightarrow> 'a" where
  "first_max key best [] = best"
| "first_max key best (x # xs) = first_max key (if key best < key x then x else best) xs"

fun select_largest :: "nat \<Rightarrow> ('a \<Rightarrow> 'k::linorder) \<Rightarrow> 'a list \<Rightarrow> 'a list" where
  "select_largest 0 key xs = []"
| "select_largest (Suc n) key [] = []"
| "select_largest (Suc n) key (x # xs) =
     (let b = first_max key x xs in b # select_largest n key (remove1 b (x # xs)))"

definition nlargest :: "nat \<Rightarrow> (row \<Rightarrow> cell) \<Rightarrow> dataframe \<Rightarrow> (nat \<times> row) list" where
  "nlargest n col df =
     select_largest n (\<lambda>(i, r). cell_rank (col r)) (enumerate 0 (rows df))"

datatype metric = Growth_Percent | Star_Growth

fun metric_column :: "metric \<Rightarrow> row \<Rightarrow> cell" where
  "metric_column Growth_Percent = growth_percent"
| "metric_column Star_Growth = star_growth"

definition top_n :: "dataframe \<Rightarrow> metric \<Rightarrow> nat \<Rightarrow> (nat \<times> row) list" where
  "top_n df m n = nlargest n (metric_column m) df"

text \<open>
  The two tables the dashboard shows, which \<open>main\<close> computes when the table of top
  performers is not empty: the five largest, with the columns to show selected from
  them, which raises when the table lacks one of these columns, and the category
  capitalized.
\<close>

definition top_growth_columns :: "string list" where
  "top_growth_columns =
     [''full_name'', ''category'', ''description'', ''growth_percent'', ''star_growth'']"

definition top_stars_columns :: "string list" where
  "top_stars_columns =
     [''full_name'', ''category'', ''description'', ''star_growth'', ''growth_percent'']"

definition capitalize_category :: "nat \<times> row \<Rightarrow> nat \<times> row" where
  "capitalize_category p = (fst p, (snd p)\<lparr>category := map_option capitalize_if (category (snd p))\<rparr>)"

definition top_growth :: "dataframe \<Rightarrow> py_error + (nat \<times> row) list" where
  "top_growth top_performers_df =
     (if set top_growth_columns \<subseteq> columns top_performers_df
      then Inr (map capitalize_category (nlargest 5 growth_percent top_performers_df))
      else Inl KeyError)"

definition top_stars :: "dataframe \<Rightarrow> py_error + (nat \<times> row) list" where
  "top_stars top_performers_df =
     (if set top_stars_columns \<subseteq> columns top_performers_df
      then Inr (map capitalize_category (nlargest 5 star_growth top_performers_df))
      else Inl KeyError)"


text \<open>
  The order the selection follows: one row is ahead of another when its key is larger,
  or the same at an earlier position. It is used to state what \<open>nlargest\<close> returns.
\<close>

definition ahead :: "('a \<Rightarrow> 'k::linorder) \<Rightarrow> nat \<times> 'a \<Rightarrow> nat \<times> 'a \<Rightarrow> bool" where
  "ahead key p q = (key (snd q) < key (snd p) \<or> (key (snd p) = key (snd q) \<and> fst p < fst q))"

section \<open>The data path of \<open>main\<close>\<close>










text \<open>
  What the merge loop leaves in one document: the document with its category key set
  from the index. It restates the body of the loop and serves the proofs.
\<close>

definition merged_doc :: "(val \<rightharpoonup> val) \<Rightarrow> doc \<Rightarrow> doc" where
  "merged_doc repo_categories d =
     d(''category'' \<mapsto> (case repo_categories (get_key d ''full_name'') of
                            Some c \<Rightarrow> c | None \<Rightarrow> VNone))"





section \<open>Example data\<close>

definition example_columns :: "string set" where
  "example_columns =
     {''full_name'', ''category'', ''growth_percent'', ''growth_per_day'', ''start_stars'',
      ''end_stars'', ''star_growth''}"

definition example_row :: "string \<Rightarrow> string option \<Rightarrow> cell \<Rightarrow> cell \<Rightarrow> cell \<Rightarrow> row" where
  "example_row name cat gp sg es =
     \<lparr>full_name = Some name, category = cat, growth_percent = gp, growth_per_day = Fin 0,
      start_stars = Fin 0, end_stars = es, star_growth = sg, analysis_date = VNone,
      analysis_period_days = VNone, analysis_start_date = VNone, analysis_end_date = VNone\<rparr>"

definition example_table :: "row list \<Rightarrow> dataframe" where
  "example_table rs = \<lparr>columns = example_columns, rows = rs\<rparr>"

text \<open>
  A table whose growth percentage is too large to be multiplied by 100 as a float, and a
  table with a null, an infinity and fractions.
\<close>

definition overflow_table :: dataframe where
  "overflow_table = example_table [example_row ''a/b'' None (Fin (2 ^ 1020)) (Fin 5) (Fin 10)]"

definition fraction_table :: dataframe where
  "fraction_table =
     example_table [example_row ''a/b'' None PInf NaN (Fin (7 / 2)),
                    example_row ''c/d'' None (Fin (9 / 8)) (Fin (- 7 / 2)) (Fin 12)]"

definition example_docs :: "doc list" where
  "example_docs =
     [[''full_name'' \<mapsto> VStr ''a/b'', ''analysis_date'' \<mapsto> VDate 20,
       ''analysis_period_days'' \<mapsto> VNum (Fin 7)],
      [''full_name'' \<mapsto> VStr ''c/d'', ''analysis_date'' \<mapsto> VDate 19,
       ''analysis_end_date'' \<mapsto> VDate 21]]"

definition example_store :: store where
  "example_store =
     (\<lambda>a. Map.empty)
       (0 := [''full_name'' \<mapsto> VStr ''a/b'', ''category'' \<mapsto> VNone,
              ''star_growth'' \<mapsto> VNum (Fin 10)],
        1 := [''star_growth'' \<mapsto> VNum (Fin 4)])"

definition example_index :: "val \<rightharpoonup> val" where
  "example_index = [VStr ''a/b'' \<mapsto> VStr ''ml'']"



definition zero_flow_table :: dataframe where
  "zero_flow_table =
     example_table [example_row ''a/b'' (Some ''ml'') (Fin 0) (Fin 0) (Fin 10)]"

definition cancelling_flow_table :: dataframe where
  "cancelling_flow_table =
     example_table [example_row ''a/b'' (Some ''web'') (Fin 50) (Fin 5) (Fin 15),
                    example_row ''c/d'' (Some ''ml'') (Fin (- 50)) (Fin (- 5)) (Fin 5)]"

definition mixed_case_table :: dataframe where
  "mixed_case_table =
     example_table [example_row ''a/b'' (Some ''ML'') (Fin 10) (Fin 5) (Fin 15),
                    example_row ''c/d'' (Some ''web'') (Fin 20) (Fin 7) (Fin 9)]"

definition ranked_table :: dataframe where
  "ranked_table =
     example_table [example_row ''A'' (Some ''ml'') (Fin 30) (Fin 5) (Fin 500),
                    example_row ''X'' (Some ''ml'') (Fin 10) (Fin 100) (Fin 500),
                    example_row ''C'' None (Fin 70) (Fin 7) (Fin 500),
                    example_row ''Y'' (Some ''web'') (Fin 20) (Fin 100) (Fin 300)]"

definition tied_table :: dataframe where
  "tied_table =
     example_table [example_row ''X'' (Some ''ml'') (Fin 10) (Fin 100) (Fin 500),
                    example_row ''Y'' (Some ''web'') (Fin 20) (Fin 100) (Fin 300)]"

definition uncategorized_table :: dataframe where
  "uncategorized_table =
     example_table [example_row ''a/b'' (Some ''ml'') (Fin 10) (Fin 5) (Fin 15),
                    example_row ''c/d'' None (Fin 20) (Fin 7) (Fin 9)]"

definition six_categories_table :: dataframe where
  "six_categories_table =
     example_table (map (\<lambda>c. example_row ''a/b'' (Some c) (Fin 10) (Fin 5) (Fin 15))
                      [''ai'', ''db'', ''ml'', ''os'', ''ui'', ''web''])"


section \<open>64-bit floats: the error of a rounding\<close>

lemma pos_int_pow2_bounds:
  fixes p :: int
  assumes "0 < p"
  shows "(2::rat) powi (bitlen p - 1) \<le> of_int p" and "of_int p < (2::rat) powi (bitlen p)"
proof -
  have b: "2 ^ nat (bitlen p - 1) \<le> p" "p < 2 ^ nat (bitlen p)"
    using bitlen_bounds [OF assms] by auto
  have b1: "1 \<le> bitlen p"
    using assms by (auto simp: bitlen_alt_def)
  have "(of_int (2 ^ nat (bitlen p - 1)) :: rat) \<le> of_int p"
    using b(1) by (simp only: of_int_le_iff)
  then show "(2::rat) powi (bitlen p - 1) \<le> of_int p"
    using b1 by (simp add: power_int_def)
  have "(of_int p :: rat) < of_int (2 ^ nat (bitlen p))"
    using b(2) by (simp only: of_int_less_iff)
  then show "of_int p < (2::rat) powi (bitlen p)"
    using b1 by (simp add: power_int_def)
qed

lemma flog2_bounds:
  assumes "x \<noteq> 0"
  shows "2 powi (flog2 x) \<le> \<bar>x\<bar>" and "\<bar>x\<bar> < 2 powi (flog2 x + 1)"
proof -
  obtain p q where pq: "quotient_of \<bar>x\<bar> = (p, q)"
    by (cases "quotient_of \<bar>x\<bar>") auto
  have q: "0 < q"
    using pq quotient_of_denom_pos by blast
  have a: "\<bar>x\<bar> = of_int p / of_int q"
    using pq by (rule quotient_of_div)
  have "0 < \<bar>x\<bar>" using assms by simp
  then have p: "0 < p"
    using a q by (simp add: zero_less_divide_iff)
  define d where "d = bitlen p - bitlen q"
  have qr: "(0::rat) < of_int q" using q by simp
  have lo: "(2::rat) powi (d - 1) < \<bar>x\<bar>"
  proof -
    have "(2::rat) powi (d - 1) * of_int q < 2 powi (d - 1) * 2 powi (bitlen q)"
      using pos_int_pow2_bounds(2) [OF q] by (simp add: zero_less_power_int)
    also have "\<dots> = 2 powi (bitlen p - 1)"
      by (simp add: d_def flip: power_int_add)
    also have "\<dots> \<le> of_int p"
      by (rule pos_int_pow2_bounds(1) [OF p])
    finally show ?thesis
      using qr by (simp add: a pos_less_divide_eq)
  qed
  have hi: "\<bar>x\<bar> < (2::rat) powi (d + 1)"
  proof -
    have "of_int p < (2::rat) powi (bitlen p)"
      by (rule pos_int_pow2_bounds(2) [OF p])
    also have "\<dots> = 2 powi (d + 1) * 2 powi (bitlen q - 1)"
      by (simp add: d_def flip: power_int_add)
    also have "\<dots> \<le> 2 powi (d + 1) * of_int q"
      using pos_int_pow2_bounds(1) [OF q] by (simp add: zero_less_power_int)
    finally show ?thesis
      using qr by (simp add: a pos_divide_less_eq)
  qed
  have e: "flog2 x = (if 2 powi d \<le> \<bar>x\<bar> then d else d - 1)"
    by (simp add: flog2_def pq d_def Let_def)
  show "2 powi (flog2 x) \<le> \<bar>x\<bar>"
    using lo by (simp add: e)
  show "\<bar>x\<bar> < 2 powi (flog2 x + 1)"
    using hi by (simp add: e not_le)
qed

lemma pow2_less_imp_less:
  assumes "(2::rat) powi e < 2 powi f"
  shows "e < f"
proof (rule ccontr)
  assume "\<not> e < f"
  then have "f \<le> e" by simp
  then have "(2::rat) powi f \<le> 2 powi e"
    by (rule power_int_increasing) simp
  with assms show False by simp
qed

lemma flog2_unique:
  assumes "2 powi e \<le> \<bar>x\<bar>" and "\<bar>x\<bar> < 2 powi (e + 1)"
  shows "flog2 x = e"
proof -
  have "(0::rat) < 2 powi e"
    by (rule zero_less_power_int) simp
  then have "0 < \<bar>x\<bar>"
    using assms(1) by (rule less_le_trans)
  then have x: "x \<noteq> 0" by simp
  have "(2::rat) powi e < 2 powi (flog2 x + 1)"
    using assms(1) flog2_bounds(2) [OF x] by simp
  then have 1: "e < flog2 x + 1"
    by (rule pow2_less_imp_less)
  have "(2::rat) powi (flog2 x) < 2 powi (e + 1)"
    using assms(2) flog2_bounds(1) [OF x] by simp
  then have 2: "flog2 x < e + 1"
    by (rule pow2_less_imp_less)
  show ?thesis using 1 2 by simp
qed

lemma rint_of_int [simp]: "rint (of_int k) = k"
  by (simp add: rint_def)

lemma rint_close: "\<bar>of_int (rint x) - x\<bar> \<le> 1 / 2"
proof -
  define d where "d = x - of_int \<lfloor>x\<rfloor>"
  have d: "0 \<le> d" "d < 1"
    unfolding d_def by linarith+
  have x: "x = of_int \<lfloor>x\<rfloor> + d"
    by (simp add: d_def)
  have r: "rint x = (if d < 1 / 2 then \<lfloor>x\<rfloor> else if 1 / 2 < d then \<lfloor>x\<rfloor> + 1
                     else if even \<lfloor>x\<rfloor> then \<lfloor>x\<rfloor> else \<lfloor>x\<rfloor> + 1)"
    by (simp add: rint_def Let_def d_def)
  have "\<bar>of_int (rint x) - (of_int \<lfloor>x\<rfloor> + d)\<bar> \<le> 1 / 2"
    unfolding r using d by (auto simp: abs_if)
  then show ?thesis
    using x by simp
qed

lemma rint_unique:
  assumes "\<bar>z - of_int k\<bar> < 1 / 2"
  shows "rint z = k"
proof -
  have "\<bar>of_int (rint z) - z\<bar> \<le> 1 / 2"
    by (rule rint_close)
  then have "\<bar>(of_int (rint z) :: rat) - of_int k\<bar> < 1"
    using assms by linarith
  then have "\<bar>(of_int (rint z - k) :: rat)\<bar> < 1"
    by simp
  then have "\<bar>rint z - k\<bar> < 1"
    by (metis of_int_abs of_int_less_1_iff)
  then show ?thesis by simp
qed

lemma ulp_pos: "0 < ulp x"
  by (simp add: ulp_def zero_less_power_int)

lemma ulp_le:
  assumes "x \<noteq> 0"
  shows "ulp x / 2 \<le> \<bar>x\<bar> / 2 ^ 53 + 1 / 2 ^ 1075"
proof (cases "- 1022 \<le> flog2 x")
  case True
  then have "ulp x = 2 powi (flog2 x - 52)"
    by (simp add: ulp_def max_def)
  also have "\<dots> = 2 powi (flog2 x) * 2 powi (- 52)"
    using power_int_add [of "2::rat" "flog2 x" "- 52"] by simp
  also have "\<dots> \<le> \<bar>x\<bar> * 2 powi (- 52)"
    using flog2_bounds(1) [OF assms] by (simp add: zero_less_power_int)
  finally have "ulp x / 2 \<le> \<bar>x\<bar> / 2 ^ 53"
    by (simp add: power_int_minus_divide)
  moreover have "(0::rat) \<le> 1 / 2 ^ 1075"
    by simp
  ultimately show ?thesis
    by (rule order_trans [OF _ add_increasing2 [OF _ order_refl]])
next
  case False
  then have "ulp x = 2 powi (- 1074)"
    by (simp add: ulp_def max_def)
  then have "ulp x / 2 = 1 / 2 ^ 1075"
    by (simp add: power_int_minus_divide)
  then show ?thesis by simp
qed

lemma ulp_small:
  assumes "x \<noteq> 0" and "\<bar>x\<bar> < 2 ^ 1024"
  shows "ulp x \<le> 2 ^ 971"
proof -
  have "(2::rat) powi (flog2 x) < 2 powi 1024"
    using flog2_bounds(1) [OF assms(1)] assms(2) by simp
  then have "flog2 x < 1024"
    by (rule pow2_less_imp_less)
  then have "max (flog2 x) (- 1022) - 52 \<le> 971"
    by simp
  then have "(2::rat) powi (max (flog2 x) (- 1022) - 52) \<le> 2 powi 971"
    by (rule power_int_increasing) simp
  then show ?thesis
    by (simp add: ulp_def)
qed

lemma round_double_error:
  assumes "\<bar>x\<bar> \<le> 10 ^ 308"
  shows "\<exists>y. round_double x = Fin y \<and> \<bar>y - x\<bar> \<le> \<bar>x\<bar> / 2 ^ 53 + 1 / 2 ^ 1075"
proof (cases "x = 0")
  case True
  then show ?thesis by (simp add: round_double_def)
next
  case False
  define y where "y = of_int (rint (x / ulp x)) * ulp x"
  have u: "0 < ulp x" by (rule ulp_pos)
  have "\<bar>of_int (rint (x / ulp x)) - x / ulp x\<bar> \<le> 1 / 2"
    by (rule rint_close)
  then have "\<bar>of_int (rint (x / ulp x)) - x / ulp x\<bar> * ulp x \<le> 1 / 2 * ulp x"
    using u by (intro mult_right_mono) simp_all
  moreover have "(of_int (rint (x / ulp x)) - x / ulp x) * ulp x = y - x"
    using u by (simp add: y_def left_diff_distrib)
  then have "\<bar>of_int (rint (x / ulp x)) - x / ulp x\<bar> * ulp x = \<bar>y - x\<bar>"
    using u by (metis abs_mult abs_of_pos)
  ultimately have half: "\<bar>y - x\<bar> \<le> ulp x / 2"
    by simp
  have err: "\<bar>y - x\<bar> \<le> \<bar>x\<bar> / 2 ^ 53 + 1 / 2 ^ 1075"
    using half ulp_le [OF False] by linarith
  have "(10::rat) ^ 308 < 2 ^ 1024"
    by simp
  with assms have "\<bar>x\<bar> < 2 ^ 1024"
    by (rule le_less_trans)
  then have "ulp x \<le> 2 ^ 971"
    by (rule ulp_small [OF False])
  then have "ulp x / 2 \<le> 2 ^ 970"
    by simp
  with half have "\<bar>y - x\<bar> \<le> 2 ^ 970"
    by (rule order_trans)
  moreover have "\<bar>y\<bar> \<le> \<bar>y - x\<bar> + \<bar>x\<bar>"
    by simp
  ultimately have "\<bar>y\<bar> \<le> 2 ^ 970 + 10 ^ 308"
    using assms by (meson add_mono order_trans)
  also have "\<dots> < 2 ^ 1024"
    by simp
  finally have "\<not> 2 ^ 1024 \<le> \<bar>y\<bar>"
    by simp
  then have "round_double x = Fin y"
    using False by (simp add: round_double_def y_def Let_def)
  then show ?thesis using err by blast
qed

lemma float_round_pinned:
  assumes "\<bar>x\<bar> \<le> 10 ^ 306"
  shows "\<exists>k y. float_round 2 (Fin x) = Fin y
     \<and> round_double (of_int k / 100) = Fin y
     \<and> \<bar>of_int k - x * 100\<bar> \<le> 1 / 2 + \<bar>x * 100\<bar> / 2 ^ 53 + 1 / 2 ^ 1075
     \<and> \<bar>y - of_int k / 100\<bar> \<le> \<bar>of_int k / 100\<bar> / 2 ^ 53 + 1 / 2 ^ 1075"
proof -
  define e :: rat where "e = 1 / 2 ^ 1075"
  define u :: rat where "u = 1 / 2 ^ 53"
  have e: "0 \<le> e" "e \<le> 1 / 4" and u: "0 \<le> u" "u \<le> 1 / 4"
    by (simp_all add: e_def u_def)
  have x1: "\<bar>x * 100\<bar> \<le> 10 ^ 308"
    using assms by (simp add: abs_mult)
  obtain y1 where y1: "round_double (x * 100) = Fin y1"
    and e1: "\<bar>y1 - x * 100\<bar> \<le> \<bar>x * 100\<bar> * u + e"
    using round_double_error [OF x1] by (auto simp: e_def u_def)
  define k where "k = rint y1"
  have rk: "\<bar>of_int k - y1\<bar> \<le> 1 / 2"
    unfolding k_def by (rule rint_close)
  have kx: "\<bar>of_int k - x * 100\<bar> \<le> 1 / 2 + \<bar>x * 100\<bar> * u + e"
    using rk e1 by linarith
  have "\<bar>x * 100\<bar> * u \<le> \<bar>x * 100\<bar> * (1 / 4)"
    using u by (intro mult_left_mono) simp_all
  then have "\<bar>(of_int k :: rat)\<bar> \<le> 2 * \<bar>x * 100\<bar> + 1"
    using kx e by linarith
  then have "\<bar>(of_int k :: rat)\<bar> \<le> 2 * 10 ^ 308 + 1"
    using x1 by linarith
  then have "\<bar>(of_int k :: rat) / 100\<bar> \<le> (2 * 10 ^ 308 + 1) / 100"
    by (simp add: divide_right_mono)
  also have "\<dots> \<le> 10 ^ 308"
    by simp
  finally have k1: "\<bar>(of_int k :: rat) / 100\<bar> \<le> 10 ^ 308" .
  obtain y where y: "round_double (of_int k / 100) = Fin y"
    and e2: "\<bar>y - of_int k / 100\<bar> \<le> \<bar>of_int k / 100\<bar> / 2 ^ 53 + 1 / 2 ^ 1075"
    using round_double_error [OF k1] by auto
  have "float_round 2 (Fin x) = Fin y"
    using y by (simp add: float_round_def y1 k_def)
  then show ?thesis
    using y kx e2 unfolding e_def u_def by (intro exI [of _ k] exI [of _ y]) simp
qed

lemma float_round_idem:
  assumes "\<bar>x\<bar> \<le> 10 ^ 13"
  shows "float_round 2 (float_round 2 (Fin x)) = float_round 2 (Fin x)"
proof -
  define e :: rat where "e = 1 / 2 ^ 1075"
  define u :: rat where "u = 1 / 2 ^ 53"
  have e: "0 \<le> e" "101 * e \<le> 1 / 100" and u: "0 \<le> u" "u \<le> 1 / 4"
    and ku: "(2 * (10 ^ 15 + 1) + 1) * u \<le> 1 / 4"
    by (simp_all add: e_def u_def)
  have "(10::rat) ^ 13 \<le> 10 ^ 306"
    by simp
  with assms have "\<bar>x\<bar> \<le> 10 ^ 306"
    by (rule order_trans)
  then obtain k y where fr: "float_round 2 (Fin x) = Fin y"
    and y: "round_double (of_int k / 100) = Fin y"
    and kx: "\<bar>of_int k - x * 100\<bar> \<le> 1 / 2 + \<bar>x * 100\<bar> * u + e"
    and e2: "\<bar>y - of_int k / 100\<bar> \<le> \<bar>of_int k / 100\<bar> * u + e"
    using float_round_pinned [of x] by (auto simp: e_def u_def)
  have x1: "\<bar>x * 100\<bar> \<le> 10 ^ 15"
    using assms by (simp add: abs_mult)
  have "\<bar>x * 100\<bar> * u \<le> 10 ^ 15 * u"
    using x1 u by (intro mult_right_mono)
  also have "\<dots> \<le> 1 / 4"
    by (simp add: u_def)
  finally have "\<bar>(of_int k :: rat)\<bar> \<le> \<bar>x * 100\<bar> + 1"
    using kx e by linarith
  then have kb: "\<bar>(of_int k :: rat)\<bar> \<le> 10 ^ 15 + 1"
    using x1 by linarith
  have "y * 100 - of_int k = (y - of_int k / 100) * 100"
    by simp
  then have "\<bar>y * 100 - of_int k\<bar> = \<bar>y - of_int k / 100\<bar> * 100"
    by (simp only: abs_mult)
  also have "\<dots> \<le> (\<bar>of_int k / 100\<bar> * u + e) * 100"
    using e2 by (intro mult_right_mono) simp_all
  also have "\<dots> = \<bar>of_int k\<bar> * u + 100 * e"
    by (simp add: algebra_simps)
  finally have d2: "\<bar>y * 100 - of_int k\<bar> \<le> \<bar>of_int k\<bar> * u + 100 * e" .
  have ku1: "\<bar>(of_int k :: rat)\<bar> * u \<le> (10 ^ 15 + 1) * u"
    using kb u by (intro mult_right_mono)
  have "(10 ^ 15 + 1) * u \<le> (1::rat)"
    by (simp add: u_def)
  then have x2: "\<bar>y * 100\<bar> \<le> \<bar>of_int k\<bar> + 2"
    using d2 ku1 e by linarith
  have "(10::rat) ^ 15 + 1 + 2 \<le> 10 ^ 308"
    by simp
  then have "\<bar>y * 100\<bar> \<le> 10 ^ 308"
    using x2 kb by linarith
  then obtain y3 where y3: "round_double (y * 100) = Fin y3"
    and e3: "\<bar>y3 - y * 100\<bar> \<le> \<bar>y * 100\<bar> * u + e"
    using round_double_error [of "y * 100"] by (auto simp: e_def u_def)
  have "\<bar>y * 100\<bar> * u \<le> (\<bar>of_int k\<bar> + 2) * u"
    using x2 u by (intro mult_right_mono)
  also have "\<dots> \<le> (10 ^ 15 + 1 + 2) * u"
    using kb u by (intro mult_right_mono) simp_all
  finally have x2u: "\<bar>y * 100\<bar> * u \<le> (10 ^ 15 + 1 + 2) * u" .
  have "(10 ^ 15 + 1) * u + (10 ^ 15 + 1 + 2) * u + 101 * e < (1::rat) / 2"
    by (simp add: e_def u_def)
  then have "\<bar>y3 - of_int k\<bar> < 1 / 2"
    using e3 d2 ku1 x2u by linarith
  then have "rint y3 = k"
    by (rule rint_unique)
  then have "float_round 2 (Fin y) = Fin y"
    using y by (simp add: float_round_def y3)
  then show ?thesis
    by (simp add: fr)
qed

lemma float_round_example: "float_round 2 (Fin (9 / 8)) = Fin (1261007895663739 / 1125899906842624)"
  by code_simp

lemma double_overflow: "float_round 2 (Fin (2 ^ 1020)) = PInf"
proof -
  define X :: rat where "X = 2 ^ 1020 * 10 ^ 2"
  have pos: "0 < X" "X \<noteq> 0"
    by (simp_all add: X_def)
  have lo: "2 powi 1026 \<le> \<bar>X\<bar>" and hi: "\<bar>X\<bar> < 2 powi (1026 + 1)"
    by (simp_all add: X_def)
  have f: "flog2 X = 1026"
    using lo hi by (rule flog2_unique)
  have u: "ulp X = 2 ^ 974"
    by (simp add: ulp_def f)
  have "X / 2 ^ 974 = of_int (100 * 2 ^ 46)"
    by (simp add: X_def)
  then have r: "rint (X / 2 ^ 974) = 100 * 2 ^ 46"
    by (simp only: rint_of_int)
  have big: "(2::rat) ^ 1024 \<le> \<bar>of_int (100 * 2 ^ 46) * 2 ^ 974\<bar>"
    by simp
  have "round_double X = PInf"
    unfolding round_double_def Let_def u r using pos big by simp
  then show ?thesis
    by (simp add: float_round_def X_def)
qed


section \<open>Normalization: what \<open>format_metrics\<close> returns\<close>

lemma assign_map:
  "assign c (map f (column c df)) df =
     df\<lparr>columns := insert c (columns df), rows := map (\<lambda>r. setc c (f (getc c r)) r) (rows df)\<rparr>"
  by (simp add: assign_def column_def zip_map1 zip_same_conv_map comp_def)

lemma astype_int_finite:
  "\<forall>c \<in> set cs. is_finite c \<Longrightarrow> astype_int cs = Inr (map int_cast cs)"
  by (induction cs rule: astype_int.induct) auto

lemma is_finite_clean: "is_finite (replace_inf (fillna0 c))"
  by (cases c) auto

lemma getc_setc_same: "c \<in> numeric_columns \<Longrightarrow> getc c (setc c v r) = v"
  by (auto simp: numeric_columns_def getc_def setc_def)

lemma setc_setc_same: "setc c v (setc c w r) = setc c v r"
  by (auto simp: setc_def)

lemma getc_setc_other: "c \<noteq> c' \<Longrightarrow> getc c (setc c' v r) = getc c r"
  by (auto simp: getc_def setc_def)

lemma columns_map_cell [simp]: "columns (map_cell c f df) = columns df"
  by (simp add: map_cell_def)

lemma format_float_column_eq:
  assumes "c \<in> numeric_columns"
  shows "format_float_column c df = map_cell c sanitize_float df"
proof (cases "c \<in> columns df")
  case True
  then have ins: "insert c (columns df) = columns df" by auto
  show ?thesis using True assms
    by (simp add: format_float_column_def map_cell_def Let_def assign_map ins comp_def
        getc_setc_same setc_setc_same sanitize_float_def)
next
  case False
  then show ?thesis by (simp add: format_float_column_def map_cell_def)
qed

lemma format_star_columns_eq:
  assumes "set cs \<subseteq> numeric_columns"
  shows "format_star_columns cs df = Inr (fold (\<lambda>c. map_cell c sanitize_star) cs df)"
  using assms
proof (induction cs arbitrary: df)
  case Nil
  then show ?case by simp
next
  case (Cons c cs)
  then have c: "c \<in> numeric_columns" and cs: "set cs \<subseteq> numeric_columns" by auto
  show ?case
  proof (cases "c \<in> columns df")
    case True
    then have ins: "insert c (columns df) = columns df" by auto
    define df2 where "df2 = map_cell c (\<lambda>x. replace_inf (fillna0 x)) df"
    have step2: "(let df1 = assign c (map fillna0 (column c df)) df
                  in assign c (map replace_inf (column c df1)) df1) = df2"
      using True c
      by (simp add: Let_def assign_map ins comp_def getc_setc_same setc_setc_same
          map_cell_def df2_def)
    have fin: "\<forall>x \<in> set (column c df2). is_finite x"
      using True c by (auto simp: df2_def map_cell_def column_def getc_setc_same is_finite_clean)
    have cast: "assign c (map int_cast (column c df2)) df2 = map_cell c sanitize_star df"
      using True c
      by (simp add: assign_map df2_def map_cell_def ins comp_def getc_setc_same
          setc_setc_same sanitize_star_def)
    have "format_star_columns (c # cs) df = format_star_columns cs (map_cell c sanitize_star df)"
      using True step2 cast by (simp add: Let_def astype_int_finite[OF fin])
    then show ?thesis using Cons.IH[OF cs] by simp
  next
    case False
    then show ?thesis using Cons.IH[OF cs] by (simp add: map_cell_def)
  qed
qed


lemma map_cell_growth_percent:
  "map_cell ''growth_percent'' f df =
     df\<lparr>rows := map (\<lambda>r. r\<lparr>growth_percent :=
        if ''growth_percent'' \<in> columns df then f (growth_percent r) else growth_percent r\<rparr>) (rows df)\<rparr>"
  by (simp add: map_cell_def getc_def setc_def)

lemma map_cell_growth_per_day:
  "map_cell ''growth_per_day'' f df =
     df\<lparr>rows := map (\<lambda>r. r\<lparr>growth_per_day :=
        if ''growth_per_day'' \<in> columns df then f (growth_per_day r) else growth_per_day r\<rparr>) (rows df)\<rparr>"
  by (simp add: map_cell_def getc_def setc_def)

lemma map_cell_start_stars:
  "map_cell ''start_stars'' f df =
     df\<lparr>rows := map (\<lambda>r. r\<lparr>start_stars :=
        if ''start_stars'' \<in> columns df then f (start_stars r) else start_stars r\<rparr>) (rows df)\<rparr>"
  by (simp add: map_cell_def getc_def setc_def)

lemma map_cell_end_stars:
  "map_cell ''end_stars'' f df =
     df\<lparr>rows := map (\<lambda>r. r\<lparr>end_stars :=
        if ''end_stars'' \<in> columns df then f (end_stars r) else end_stars r\<rparr>) (rows df)\<rparr>"
  by (simp add: map_cell_def getc_def setc_def)

lemma map_cell_star_growth:
  "map_cell ''star_growth'' f df =
     df\<lparr>rows := map (\<lambda>r. r\<lparr>star_growth :=
        if ''star_growth'' \<in> columns df then f (star_growth r) else star_growth r\<rparr>) (rows df)\<rparr>"
  by (simp add: map_cell_def getc_def setc_def)

lemma fold_map_cell:
  "fold (\<lambda>c. map_cell c sanitize_star) star_columns
          (map_cell ''growth_per_day'' sanitize_float (map_cell ''growth_percent'' sanitize_float df))
        = df\<lparr>rows := map (normalize_row (columns df)) (rows df)\<rparr>"
  by (simp add: star_columns_def map_cell_growth_percent map_cell_growth_per_day
      map_cell_start_stars map_cell_end_stars map_cell_star_growth normalize_row_def comp_def
      cong: if_cong)

lemma format_metrics_eq:
  "format_metrics (Some df) =
     Inr (Some (if df_empty df then df else df\<lparr>rows := map (normalize_row (columns df)) (rows df)\<rparr>))"
proof (cases "df_empty df")
  case True
  then show ?thesis by (simp add: format_metrics_def)
next
  case False
  have n1: "''growth_percent'' \<in> numeric_columns" and n2: "''growth_per_day'' \<in> numeric_columns"
    and n3: "set star_columns \<subseteq> numeric_columns"
    by (simp_all add: numeric_columns_def star_columns_def)
  show ?thesis using False
    by (simp add: format_metrics_def Let_def format_float_column_eq[OF n1]
        format_float_column_eq[OF n2] format_star_columns_eq[OF n3] fold_map_cell)
qed

lemma trunc_of_int [simp]: "trunc (of_int k) = k"
  by (simp add: trunc_def)

lemma trunc_close: "\<bar>of_int (trunc x)\<bar> \<le> \<bar>x\<bar> \<and> \<bar>x - of_int (trunc x)\<bar> < 1"
proof (cases "0 \<le> x")
  case True
  have t: "trunc x = \<lfloor>x\<rfloor>"
    using True by (simp add: trunc_def)
  have "of_int \<lfloor>x\<rfloor> \<le> x" and "x < of_int \<lfloor>x\<rfloor> + 1" and "(0::rat) \<le> of_int \<lfloor>x\<rfloor>"
    using True by (linarith, linarith, simp)
  then show ?thesis
    unfolding t using True by linarith
next
  case False
  have t: "trunc x = \<lceil>x\<rceil>"
    using False by (simp add: trunc_def)
  have "\<lceil>x\<rceil> \<le> 0"
    using False by (simp add: ceiling_le_iff)
  then have "(of_int \<lceil>x\<rceil> :: rat) \<le> 0"
    by simp
  moreover have "x \<le> of_int \<lceil>x\<rceil>" and "of_int \<lceil>x\<rceil> < x + 1"
    by linarith+
  ultimately show ?thesis
    unfolding t using False by linarith
qed

lemma int64_cast_of_int:
  "- (2 ^ 63) \<le> k \<Longrightarrow> k < 2 ^ 63 \<Longrightarrow> int64_cast (of_int k) = k"
  by (simp add: int64_cast_def)

lemma int64_cast_range: "- (2 ^ 63) \<le> int64_cast x \<and> int64_cast x < 2 ^ 63"
  by (simp add: int64_cast_def Let_def)

lemma int64_cast_idem: "int64_cast (of_int (int64_cast x)) = int64_cast x"
  using int64_cast_range [of x] by (simp add: int64_cast_of_int)

lemma int64_cast_trunc:
  assumes "\<bar>x\<bar> \<le> 2 ^ 63 - 1"
  shows "int64_cast x = trunc x"
proof -
  have "\<bar>(of_int (trunc x) :: rat)\<bar> \<le> 2 ^ 63 - 1"
    using trunc_close [of x] assms by linarith
  then have "\<bar>(of_int (trunc x) :: rat)\<bar> \<le> of_int (2 ^ 63 - 1)"
    by simp
  then have "\<bar>trunc x\<bar> \<le> 2 ^ 63 - 1"
    by (metis of_int_abs of_int_le_iff)
  then show ?thesis
    by (auto simp: int64_cast_def Let_def)
qed

lemma int64_cast_0 [simp]: "int64_cast 0 = 0"
  using int64_cast_of_int [of 0] by simp

lemma float_round_0 [simp]: "float_round d (Fin 0) = Fin 0"
  by (simp add: float_round_def round_double_def rint_def)

lemma sanitize_float_cases:
  "sanitize_float c = (case c of Fin x \<Rightarrow> float_round 2 (Fin x) | _ \<Rightarrow> Fin 0)"
  by (cases c) (simp_all add: sanitize_float_def)

lemma sanitize_star_cases:
  "sanitize_star c = (case c of Fin x \<Rightarrow> Fin (of_int (int64_cast x)) | _ \<Rightarrow> Fin 0)"
  by (cases c) (simp_all add: sanitize_star_def)

lemma sanitize_float_idem:
  assumes "cell_within (10 ^ 13) c"
  shows "sanitize_float (sanitize_float c) = sanitize_float c"
proof (cases c)
  case (Fin x)
  then have x: "\<bar>x\<bar> \<le> 10 ^ 13"
    using assms by (simp add: cell_within_def)
  have "(10::rat) ^ 13 \<le> 10 ^ 306"
    by simp
  with x have "\<bar>x\<bar> \<le> 10 ^ 306"
    by (rule order_trans)
  then obtain y where y: "float_round 2 (Fin x) = Fin y"
    using float_round_pinned [of x] by blast
  have "float_round 2 (Fin y) = Fin y"
    using float_round_idem [OF x] by (simp add: y)
  then show ?thesis
    by (simp add: sanitize_float_cases Fin y)
qed (simp_all add: sanitize_float_cases)

lemma sanitize_star_idem [simp]: "sanitize_star (sanitize_star c) = sanitize_star c"
  by (cases c) (simp_all add: sanitize_star_cases int64_cast_idem)

lemma normalize_row_idem:
  assumes "cell_within (10 ^ 13) (growth_percent r)"
    and "cell_within (10 ^ 13) (growth_per_day r)"
  shows "normalize_row cols (normalize_row cols r) = normalize_row cols r"
  using assms by (simp add: normalize_row_def sanitize_float_idem)

lemma getc_normalize_row:
  assumes "c \<in> numeric_columns" "c \<in> cols"
  shows "getc c (normalize_row cols r) =
           (if c \<in> float_columns then sanitize_float (getc c r) else sanitize_star (getc c r))"
  using assms by (auto simp: numeric_columns_def float_columns_def normalize_row_def getc_def)

lemma growth_normalize_row:
  "growth_percent (normalize_row cols r) =
     (if ''growth_percent'' \<in> cols then sanitize_float (growth_percent r) else growth_percent r)"
  by (simp add: normalize_row_def)


text \<open>
  Claim C5 says that normalizing twice gives what normalizing once gives, for every
  batch. The rounding multiplies by 100 as a 64-bit float, after the infinities were
  replaced: a growth percentage of \<open>2 ^ 1020\<close> overflows to an infinity in the first
  pass, and the second pass replaces that infinity by 0.
\<close>

theorem format_metrics_twice_counterexample:
  "\<exists>once twice. format_metrics (Some overflow_table) = Inr (Some once)
     \<and> format_metrics (Some once) = Inr (Some twice)
     \<and> map growth_percent (rows once) = [PInf]
     \<and> map growth_percent (rows twice) = [Fin 0]"
proof -
  define once where
    "once = overflow_table\<lparr>rows := map (normalize_row (columns overflow_table)) (rows overflow_table)\<rparr>"
  define twice where "twice = once\<lparr>rows := map (normalize_row (columns once)) (rows once)\<rparr>"
  have ne: "\<not> df_empty overflow_table" and c: "''growth_percent'' \<in> columns overflow_table"
    by (simp_all add: df_empty_def overflow_table_def example_table_def example_columns_def)
  have ne1: "\<not> df_empty once" and c1: "''growth_percent'' \<in> columns once"
    using ne c by (simp_all add: once_def df_empty_def)
  have f1: "format_metrics (Some overflow_table) = Inr (Some once)"
    using ne by (simp add: format_metrics_eq once_def)
  have f2: "format_metrics (Some once) = Inr (Some twice)"
    using ne1 by (simp add: format_metrics_eq twice_def)
  have s1: "sanitize_float (Fin (2 ^ 1020)) = PInf"
    by (simp only: sanitize_float_def fillna0.simps replace_inf.simps double_overflow)
  have r0: "map growth_percent (rows overflow_table) = [Fin (2 ^ 1020)]"
    by (simp add: overflow_table_def example_table_def example_row_def)
  have "map growth_percent (rows once) = map sanitize_float (map growth_percent (rows overflow_table))"
    using c by (simp add: once_def growth_normalize_row comp_def)
  then have g1: "map growth_percent (rows once) = [PInf]"
    by (simp only: r0 list.map s1)
  have "map growth_percent (rows twice) = map sanitize_float (map growth_percent (rows once))"
    using c1 by (simp add: twice_def growth_normalize_row comp_def)
  then have g2: "map growth_percent (rows twice) = [Fin 0]"
    by (simp add: g1 sanitize_float_cases)
  show ?thesis
    using f1 f2 g1 g2 by (intro exI [of _ once] exI [of _ twice] conjI)
qed

text \<open>
  Claim C5, amended. Normalization is idempotent on the tables whose growth values are
  of magnitude at most \<open>10 ^ 13\<close> and whose star values are within the 64-bit integer
  range: \<open>format_metrics\<close> returns on such a table (and on an absent one), and applied
  to its own result it returns that result again. The values the rules produce there
  are fixed points of the rules: a cell of a float column that went through fill,
  replace and round is unchanged by a second pass, and so is a star column that went
  through fill, replace and the integer cast.
\<close>

theorem format_metrics_idempotent:
  assumes "growth_within (10 ^ 13) df" and "stars_in_int64 df"
  shows "(\<exists>out. format_metrics (Some df) = Inr out \<and> format_metrics out = Inr out)
     \<and> format_metrics None = Inr None
     \<and> (\<forall>c. cell_within (10 ^ 13) c \<longrightarrow>
           float_round 2 (replace_inf (fillna0 (float_round 2 (replace_inf (fillna0 c)))))
             = float_round 2 (replace_inf (fillna0 c)))
     \<and> (\<forall>cs ds es. (\<forall>c \<in> set cs. cell_within (2 ^ 63 - 1) c)
           \<and> astype_int (map replace_inf (map fillna0 cs)) = Inr ds
           \<and> astype_int (map replace_inf (map fillna0 ds)) = Inr es \<longrightarrow> es = ds)"
proof -
  have cellf: "float_round 2 (replace_inf (fillna0 (float_round 2 (replace_inf (fillna0 c)))))
         = float_round 2 (replace_inf (fillna0 c))" if "cell_within (10 ^ 13) c" for c
    using sanitize_float_idem [OF that] by (simp add: sanitize_float_def)
  have cells: "es = ds"
    if "astype_int (map replace_inf (map fillna0 cs)) = Inr ds"
      and "astype_int (map replace_inf (map fillna0 ds)) = Inr es" for cs ds es
  proof -
    have f1: "\<forall>x \<in> set (map replace_inf (map fillna0 cs)). is_finite x"
      by (auto simp: is_finite_clean)
    have f2: "\<forall>x \<in> set (map replace_inf (map fillna0 ds)). is_finite x"
      by (auto simp: is_finite_clean)
    have d: "ds = map sanitize_star cs"
      using that(1) astype_int_finite[OF f1] by (simp add: sanitize_star_def comp_def)
    have e: "es = map sanitize_star ds"
      using that(2) astype_int_finite[OF f2] by (simp add: sanitize_star_def comp_def)
    show ?thesis unfolding e d by simp
  qed
  have frame: "\<exists>out. format_metrics (Some df) = Inr out \<and> format_metrics out = Inr out"
  proof (cases "df_empty df")
    case True
    then show ?thesis by (simp add: format_metrics_eq)
  next
    case False
    define out where "out = df\<lparr>rows := map (normalize_row (columns df)) (rows df)\<rparr>"
    have ne: "\<not> df_empty out" using False by (simp add: out_def df_empty_def)
    have "map (normalize_row (columns df)) (map (normalize_row (columns df)) (rows df))
            = map (normalize_row (columns df)) (rows df)"
      using assms(1) by (simp add: growth_within_def normalize_row_idem)
    then have "format_metrics (Some out) = Inr (Some out)"
      using ne by (simp add: format_metrics_eq) (simp add: out_def)
    then show ?thesis using False by (simp add: format_metrics_eq out_def)
  qed
  have none: "format_metrics None = Inr None"
    by (simp add: format_metrics_def)
  show ?thesis using frame none cellf cells by blast
qed

theorem format_metrics_idempotent_witness:
  "growth_within (10 ^ 13) fraction_table \<and> stars_in_int64 fraction_table
   \<and> cell_within (10 ^ 13) (Fin (9 / 8))
   \<and> (\<exists>out. format_metrics (Some fraction_table) = Inr out \<and> format_metrics out = Inr out)
   \<and> float_round 2 (replace_inf (fillna0 (float_round 2 (replace_inf (fillna0 (Fin (9 / 8)))))))
       = float_round 2 (replace_inf (fillna0 (Fin (9 / 8))))"
proof -
  have g: "growth_within (10 ^ 13) fraction_table"
    by (simp add: growth_within_def fraction_table_def example_table_def example_row_def
        cell_within_def)
  have i: "stars_in_int64 fraction_table"
    by (simp add: stars_in_int64_def fraction_table_def example_table_def example_row_def
        cell_within_def)
  have c: "cell_within (10 ^ 13) (Fin (9 / 8))"
    by (simp add: cell_within_def)
  note t = format_metrics_idempotent [OF g i]
  have a: "\<exists>out. format_metrics (Some fraction_table) = Inr out \<and> format_metrics out = Inr out"
    using t by blast
  have "\<forall>c. cell_within (10 ^ 13) c \<longrightarrow>
           float_round 2 (replace_inf (fillna0 (float_round 2 (replace_inf (fillna0 c)))))
             = float_round 2 (replace_inf (fillna0 c))"
    using t by blast
  then have b: "float_round 2 (replace_inf (fillna0 (float_round 2 (replace_inf (fillna0 (Fin (9 / 8)))))))
       = float_round 2 (replace_inf (fillna0 (Fin (9 / 8))))"
    using c by blast
  show ?thesis
    using g i c a b by (intro conjI)
qed


lemma growth_within_getc:
  assumes "growth_within b df" and "r \<in> set (rows df)" and "c \<in> float_columns"
  shows "cell_within b (getc c r)"
  using assms by (auto simp: growth_within_def float_columns_def getc_def)

lemma growth_within_mono:
  assumes "growth_within b df" and "b \<le> b'"
  shows "growth_within b' df"
  unfolding growth_within_def
proof
  fix r assume r: "r \<in> set (rows df)"
  have m: "cell_within b' c" if "cell_within b c" for c
    using that assms(2) by (cases c) (simp_all add: cell_within_def)
  from assms(1) r have "cell_within b (growth_percent r) \<and> cell_within b (growth_per_day r)"
    by (simp add: growth_within_def)
  then show "cell_within b' (growth_percent r) \<and> cell_within b' (growth_per_day r)"
    using m by blast
qed

lemma stars_in_int64_getc:
  assumes "stars_in_int64 df" and "r \<in> set (rows df)"
    and "c \<in> numeric_columns" and "c \<notin> float_columns"
  shows "cell_within (2 ^ 63 - 1) (getc c r)"
  using assms by (auto simp: stars_in_int64_def numeric_columns_def float_columns_def getc_def)

text \<open>
  Claim C6 says that every numeric field is finite after normalization, for every batch.
  The rounding comes after the replacement of the infinities and multiplies by 100 as a
  64-bit float: a growth percentage of \<open>2 ^ 1020\<close> leaves the normalization as an
  infinity.
\<close>

theorem format_metrics_overflow_counterexample:
  "\<exists>out. format_metrics (Some overflow_table) = Inr (Some out)
     \<and> map growth_percent (rows overflow_table) = [Fin (2 ^ 1020)]
     \<and> map growth_percent (rows out) = [PInf]
     \<and> \<not> is_finite PInf"
proof -
  define out where
    "out = overflow_table\<lparr>rows := map (normalize_row (columns overflow_table)) (rows overflow_table)\<rparr>"
  have ne: "\<not> df_empty overflow_table" and c: "''growth_percent'' \<in> columns overflow_table"
    by (simp_all add: df_empty_def overflow_table_def example_table_def example_columns_def)
  have f1: "format_metrics (Some overflow_table) = Inr (Some out)"
    using ne by (simp add: format_metrics_eq out_def)
  have s1: "sanitize_float (Fin (2 ^ 1020)) = PInf"
    by (simp only: sanitize_float_def fillna0.simps replace_inf.simps double_overflow)
  have r0: "map growth_percent (rows overflow_table) = [Fin (2 ^ 1020)]"
    by (simp add: overflow_table_def example_table_def example_row_def)
  have "map growth_percent (rows out) = map sanitize_float (map growth_percent (rows overflow_table))"
    using c by (simp add: out_def growth_normalize_row comp_def)
  then have g1: "map growth_percent (rows out) = [PInf]"
    by (simp only: r0 list.map s1)
  have nf: "\<not> is_finite PInf"
    by simp
  show ?thesis
    using f1 r0 g1 nf by (intro exI [of _ out] conjI)
qed

text \<open>
  Claim C6, amended. On a table whose growth values are of magnitude at most
  \<open>10 ^ 13\<close> and whose star values are within the 64-bit integer range, every cell of
  the five numeric columns the table has is a finite number after normalization:
  \<open>format_metrics\<close> returns, keeps the columns and the number of rows, and turns a
  missing value or an infinity into 0. A finite number of the two float columns becomes
  the 64-bit float of \<open>k / 100\<close>, where the integer \<open>k\<close> is 100 times the number
  rounded to the nearest integer, up to the rounding of the product to a float. A
  finite number of the three star columns is truncated towards zero to an integer.
\<close>

theorem format_metrics_finite:
  assumes "growth_within (10 ^ 13) df" and "stars_in_int64 df"
  shows "\<exists>out. format_metrics (Some df) = Inr (Some out)
     \<and> columns out = columns df \<and> length (rows out) = length (rows df)
     \<and> (\<forall>i < length (rows df). \<forall>c \<in> numeric_columns \<inter> columns df.
          is_finite (getc c (rows out ! i))
          \<and> (\<not> is_finite (getc c (rows df ! i)) \<longrightarrow> getc c (rows out ! i) = Fin 0)
          \<and> (\<forall>x. getc c (rows df ! i) = Fin x \<longrightarrow>
                (if c \<in> float_columns
                 then \<exists>k. getc c (rows out ! i) = round_double (of_int k / 100)
                        \<and> \<bar>of_int k - x * 100\<bar> \<le> 1 / 2 + \<bar>x * 100\<bar> / 2 ^ 53 + 1 / 2 ^ 1075
                 else getc c (rows out ! i) = Fin (of_int (trunc x))
                        \<and> \<bar>of_int (trunc x)\<bar> \<le> \<bar>x\<bar> \<and> \<bar>x - of_int (trunc x)\<bar> < 1)))"
proof -
  define out where "out = (if df_empty df then df else df\<lparr>rows := map (normalize_row (columns df)) (rows df)\<rparr>)"
  have big: "growth_within (10 ^ 306) df"
    using assms(1) by (rule growth_within_mono) simp
  have fm: "format_metrics (Some df) = Inr (Some out)"
    by (simp add: format_metrics_eq out_def)
  have cols: "columns out = columns df" and len: "length (rows out) = length (rows df)"
    by (simp_all add: out_def)
  define near where
    "near = (\<lambda>(x::rat) (k::int). \<bar>of_int k - x * 100\<bar> \<le> 1 / 2 + \<bar>x * 100\<bar> / 2 ^ 53 + 1 / 2 ^ 1075)"
  have cellp: "is_finite (getc c (rows out ! i))
          \<and> (\<not> is_finite (getc c (rows df ! i)) \<longrightarrow> getc c (rows out ! i) = Fin 0)
          \<and> (\<forall>x. getc c (rows df ! i) = Fin x \<longrightarrow>
                (if c \<in> float_columns
                 then \<exists>k. getc c (rows out ! i) = round_double (of_int k / 100) \<and> near x k
                 else getc c (rows out ! i) = Fin (of_int (trunc x))
                        \<and> \<bar>of_int (trunc x)\<bar> \<le> \<bar>x\<bar> \<and> \<bar>x - of_int (trunc x)\<bar> < 1))"
    if i: "i < length (rows df)" and c: "c \<in> numeric_columns \<inter> columns df" for i c
  proof -
    have ne: "\<not> df_empty df" using i c by (auto simp: df_empty_def)
    have mem: "rows df ! i \<in> set (rows df)"
      using i by simp
    have g: "getc c (rows out ! i) =
           (if c \<in> float_columns then sanitize_float (getc c (rows df ! i))
            else sanitize_star (getc c (rows df ! i)))"
      using ne i c by (simp add: out_def getc_normalize_row)
    show ?thesis
    proof (cases "c \<in> float_columns")
      case True
      have w: "cell_within (10 ^ 306) (getc c (rows df ! i))"
        using big mem True by (rule growth_within_getc)
      show ?thesis
      proof (cases "getc c (rows df ! i)")
        case (Fin x)
        then have "\<bar>x\<bar> \<le> 10 ^ 306"
          using w by (simp add: cell_within_def)
        then obtain k y where y: "float_round 2 (Fin x) = Fin y"
          and k: "round_double (of_int k / 100) = Fin y" and "near x k"
          using float_round_pinned [of x] unfolding near_def by blast
        then have "\<exists>k. Fin y = round_double (of_int k / 100) \<and> near x k"
          by metis
        then show ?thesis
          unfolding g using True Fin y by (simp add: sanitize_float_cases)
      qed (simp_all add: g True sanitize_float_cases)
    next
      case False
      have cn: "c \<in> numeric_columns"
        using c by simp
      have w: "cell_within (2 ^ 63 - 1) (getc c (rows df ! i))"
        using assms(2) mem cn False by (rule stars_in_int64_getc)
      show ?thesis
      proof (cases "getc c (rows df ! i)")
        case (Fin x)
        then have "\<bar>x\<bar> \<le> 2 ^ 63 - 1"
          using w by (simp add: cell_within_def)
        then have "int64_cast x = trunc x"
          by (rule int64_cast_trunc)
        then show ?thesis
          unfolding g using False Fin trunc_close [of x] by (simp add: sanitize_star_cases)
      qed (simp_all add: g False sanitize_star_cases)
    qed
  qed
  show ?thesis using fm cols len cellp unfolding near_def by blast
qed

text \<open>
  The second end-to-end scenario of the specification, a record whose growth percentage
  is infinite and whose star growth is null, and a record with fractions: 1.125 becomes
  the float of 1.12, the half going to the even neighbour, and -3.5 becomes -3.
\<close>

theorem format_metrics_finite_witness:
  "growth_within (10 ^ 13) fraction_table \<and> stars_in_int64 fraction_table
   \<and> (1::nat) < length (rows fraction_table)
   \<and> ''growth_percent'' \<in> numeric_columns \<inter> columns fraction_table
   \<and> (\<exists>out. format_metrics (Some fraction_table) = Inr (Some out)
         \<and> growth_percent (rows out ! 0) = Fin 0
         \<and> star_growth (rows out ! 0) = Fin 0
         \<and> end_stars (rows out ! 0) = Fin 3
         \<and> star_growth (rows out ! 1) = Fin (- 3)
         \<and> growth_percent (rows out ! 1) = Fin (1261007895663739 / 1125899906842624)
         \<and> (\<exists>k. growth_percent (rows out ! 1) = round_double (of_int k / 100)
                \<and> \<bar>of_int k - 9 / 8 * 100\<bar> \<le> 1 / 2 + \<bar>9 / 8 * 100 :: rat\<bar> / 2 ^ 53 + 1 / 2 ^ 1075))"
proof -
  define df where "df = fraction_table"
  have g: "growth_within (10 ^ 13) df"
    by (simp add: df_def growth_within_def fraction_table_def example_table_def example_row_def
        cell_within_def)
  have s: "stars_in_int64 df"
    by (simp add: df_def stars_in_int64_def fraction_table_def example_table_def example_row_def
        cell_within_def)
  have len0: "0 < length (rows df)" and len1: "1 < length (rows df)"
    by (simp_all add: df_def fraction_table_def example_table_def)
  have c1: "''growth_percent'' \<in> numeric_columns \<inter> columns df"
    and c2: "''star_growth'' \<in> numeric_columns \<inter> columns df"
    and c3: "''end_stars'' \<in> numeric_columns \<inter> columns df"
    by (simp_all add: df_def fraction_table_def example_table_def example_columns_def
        numeric_columns_def)
  have fl: "''growth_percent'' \<in> float_columns" "''star_growth'' \<notin> float_columns"
    "''end_stars'' \<notin> float_columns"
    by (simp_all add: float_columns_def)
  have tr: "trunc (7 / 2) = 3" "trunc (- (7 / 2)) = - 3"
    by (simp_all add: trunc_def floor_eq_iff ceiling_eq_iff)
  have r0: "rows df ! 0 = example_row ''a/b'' None PInf NaN (Fin (7 / 2))"
    and r1: "rows df ! 1 = example_row ''c/d'' None (Fin (9 / 8)) (Fin (- 7 / 2)) (Fin 12)"
    by (simp_all add: df_def fraction_table_def example_table_def)
  obtain out where fm: "format_metrics (Some df) = Inr (Some out)"
    and cells: "\<forall>i < length (rows df). \<forall>c \<in> numeric_columns \<inter> columns df.
          is_finite (getc c (rows out ! i))
          \<and> (\<not> is_finite (getc c (rows df ! i)) \<longrightarrow> getc c (rows out ! i) = Fin 0)
          \<and> (\<forall>x. getc c (rows df ! i) = Fin x \<longrightarrow>
                (if c \<in> float_columns
                 then \<exists>k. getc c (rows out ! i) = round_double (of_int k / 100)
                        \<and> \<bar>of_int k - x * 100\<bar> \<le> 1 / 2 + \<bar>x * 100\<bar> / 2 ^ 53 + 1 / 2 ^ 1075
                 else getc c (rows out ! i) = Fin (of_int (trunc x))
                        \<and> \<bar>of_int (trunc x)\<bar> \<le> \<bar>x\<bar> \<and> \<bar>x - of_int (trunc x)\<bar> < 1))"
    using format_metrics_finite [OF g s] by blast
  have "\<not> is_finite (getc ''growth_percent'' (rows df ! 0))"
    unfolding r0 by (simp add: getc_def example_row_def)
  then have "getc ''growth_percent'' (rows out ! 0) = Fin 0"
    using cells [rule_format, OF len0 c1] by blast
  then have g1: "growth_percent (rows out ! 0) = Fin 0"
    by (simp add: getc_def)
  have "\<not> is_finite (getc ''star_growth'' (rows df ! 0))"
    unfolding r0 by (simp add: getc_def example_row_def)
  then have "getc ''star_growth'' (rows out ! 0) = Fin 0"
    using cells [rule_format, OF len0 c2] by blast
  then have g2: "star_growth (rows out ! 0) = Fin 0"
    by (simp add: getc_def)
  have "getc ''end_stars'' (rows df ! 0) = Fin (7 / 2)"
    unfolding r0 by (simp add: getc_def example_row_def)
  then have "getc ''end_stars'' (rows out ! 0) = Fin (of_int (trunc (7 / 2)))"
    using cells [rule_format, OF len0 c3] fl by simp
  then have g3: "end_stars (rows out ! 0) = Fin 3"
    by (simp add: getc_def tr)
  have "getc ''star_growth'' (rows df ! 1) = Fin (- 7 / 2)"
    unfolding r1 by (simp add: getc_def example_row_def)
  then have "getc ''star_growth'' (rows out ! 1) = Fin (of_int (trunc (- 7 / 2)))"
    using cells [rule_format, OF len1 c2] fl by simp
  then have g4: "star_growth (rows out ! 1) = Fin (- 3)"
    by (simp add: getc_def tr)
  have in1: "getc ''growth_percent'' (rows df ! 1) = Fin (9 / 8)"
    unfolding r1 by (simp add: getc_def example_row_def)
  have gp: "getc ''growth_percent'' r = growth_percent r" for r
    by (simp add: getc_def)
  have "\<forall>x. getc ''growth_percent'' (rows df ! 1) = Fin x \<longrightarrow>
                (if ''growth_percent'' \<in> float_columns
                 then \<exists>k. getc ''growth_percent'' (rows out ! 1) = round_double (of_int k / 100)
                        \<and> \<bar>of_int k - x * 100\<bar> \<le> 1 / 2 + \<bar>x * 100\<bar> / 2 ^ 53 + 1 / 2 ^ 1075
                 else getc ''growth_percent'' (rows out ! 1) = Fin (of_int (trunc x))
                        \<and> \<bar>of_int (trunc x)\<bar> \<le> \<bar>x\<bar> \<and> \<bar>x - of_int (trunc x)\<bar> < 1)"
    using cells [rule_format, OF len1 c1] by blast
  then have "if ''growth_percent'' \<in> float_columns
                 then \<exists>k. getc ''growth_percent'' (rows out ! 1) = round_double (of_int k / 100)
                        \<and> \<bar>of_int k - 9 / 8 * 100\<bar> \<le> 1 / 2 + \<bar>9 / 8 * 100 :: rat\<bar> / 2 ^ 53 + 1 / 2 ^ 1075
                 else getc ''growth_percent'' (rows out ! 1) = Fin (of_int (trunc (9 / 8)))
                        \<and> \<bar>of_int (trunc (9 / 8))\<bar> \<le> \<bar>9 / 8 :: rat\<bar> \<and> \<bar>9 / 8 - of_int (trunc (9 / 8)) :: rat\<bar> < 1"
    using in1 by blast
  then have g5: "\<exists>k. growth_percent (rows out ! 1) = round_double (of_int k / 100)
                \<and> \<bar>of_int k - 9 / 8 * 100\<bar> \<le> 1 / 2 + \<bar>9 / 8 * 100 :: rat\<bar> / 2 ^ 53 + 1 / 2 ^ 1075"
    unfolding gp by (simp only: fl if_True)
  have ne: "\<not> df_empty df"
    using len0 c1 by (auto simp: df_empty_def)
  have "out = df\<lparr>rows := map (normalize_row (columns df)) (rows df)\<rparr>"
    using fm ne by (simp add: format_metrics_eq)
  then have "growth_percent (rows out ! 1) = sanitize_float (growth_percent (rows df ! 1))"
    using len1 c1 by (simp add: growth_normalize_row)
  then have g6: "growth_percent (rows out ! 1) = Fin (1261007895663739 / 1125899906842624)"
    unfolding r1 by (simp add: example_row_def sanitize_float_cases float_round_example)
  have "\<exists>out. format_metrics (Some df) = Inr (Some out)
         \<and> growth_percent (rows out ! 0) = Fin 0
         \<and> star_growth (rows out ! 0) = Fin 0
         \<and> end_stars (rows out ! 0) = Fin 3
         \<and> star_growth (rows out ! 1) = Fin (- 3)
         \<and> growth_percent (rows out ! 1) = Fin (1261007895663739 / 1125899906842624)
         \<and> (\<exists>k. growth_percent (rows out ! 1) = round_double (of_int k / 100)
                \<and> \<bar>of_int k - 9 / 8 * 100\<bar> \<le> 1 / 2 + \<bar>9 / 8 * 100 :: rat\<bar> / 2 ^ 53 + 1 / 2 ^ 1075)"
    using fm g1 g2 g3 g4 g6 g5 by (intro exI [of _ out] conjI)
  then show ?thesis
    using g s len1 c1 unfolding df_def by (intro conjI)
qed


section \<open>Filters: thresholds\<close>

lemma rows_boolean_mask [simp]: "rows (boolean_mask p df) = filter p (rows df)"
  by (simp add: boolean_mask_def)

lemma columns_boolean_mask [simp]: "columns (boolean_mask p df) = columns df"
  by (simp add: boolean_mask_def)

text \<open>
  Claim C3. The three thresholds: a threshold at its default 0 keeps every record (also
  one whose value is negative), a threshold above 0 keeps exactly the records whose
  growth percentage, star growth or end stars is at least the threshold, and the three
  conditions hold together. The columns are unchanged.
\<close>

theorem filter_by_thresholds_keeps:
  "rows (filter_by_thresholds min_growth min_star_growth min_end_stars df) =
     filter (\<lambda>r. (0 < min_growth \<longrightarrow> ge_cell (growth_percent r) min_growth)
                \<and> (0 < min_star_growth \<longrightarrow> ge_cell (star_growth r) (of_int min_star_growth))
                \<and> (0 < min_end_stars \<longrightarrow> ge_cell (end_stars r) (of_int min_end_stars)))
       (rows df)
   \<and> columns (filter_by_thresholds min_growth min_star_growth min_end_stars df) = columns df
   \<and> filter_by_thresholds 0 0 0 df = df"
proof -
  have r: "rows (filter_by_thresholds min_growth min_star_growth min_end_stars df) =
     filter (\<lambda>r. (0 < min_growth \<longrightarrow> ge_cell (growth_percent r) min_growth)
                \<and> (0 < min_star_growth \<longrightarrow> ge_cell (star_growth r) (of_int min_star_growth))
                \<and> (0 < min_end_stars \<longrightarrow> ge_cell (end_stars r) (of_int min_end_stars)))
       (rows df)"
    by (cases "0 < min_growth"; cases "0 < min_star_growth"; cases "0 < min_end_stars")
       (auto simp: filter_by_thresholds_def Let_def intro!: filter_cong)
  have c: "columns (filter_by_thresholds min_growth min_star_growth min_end_stars df) = columns df"
    by (simp add: filter_by_thresholds_def Let_def)
  have z: "filter_by_thresholds 0 0 0 df = df"
    by (simp add: filter_by_thresholds_def)
  show ?thesis using r c z by blast
qed

text \<open>
  The third end-to-end scenario: a minimum growth of 50 on records at 30 and 70 keeps the
  second only; at the defaults a record with negative values passes.
\<close>

theorem filter_by_thresholds_keeps_witness:
  "(0::rat) < 50
   \<and> rows (filter_by_thresholds 50 0 0
        (example_table [example_row ''a'' None (Fin 30) (Fin 1) (Fin 1),
                        example_row ''b'' None (Fin 70) (Fin (- 2)) (Fin 1)]))
      = [example_row ''b'' None (Fin 70) (Fin (- 2)) (Fin 1)]
   \<and> rows (filter_by_thresholds 0 0 0
        (example_table [example_row ''c'' None (Fin (- 5)) (Fin (- 2)) (Fin 1)]))
      = [example_row ''c'' None (Fin (- 5)) (Fin (- 2)) (Fin 1)]"
proof -
  have a: "rows (filter_by_thresholds 50 0 0
        (example_table [example_row ''a'' None (Fin 30) (Fin 1) (Fin 1),
                        example_row ''b'' None (Fin 70) (Fin (- 2)) (Fin 1)]))
      = [example_row ''b'' None (Fin 70) (Fin (- 2)) (Fin 1)]"
    using filter_by_thresholds_keeps
      [of 50 0 0 "example_table [example_row ''a'' None (Fin 30) (Fin 1) (Fin 1),
                        example_row ''b'' None (Fin 70) (Fin (- 2)) (Fin 1)]"]
    by (simp add: example_table_def example_row_def)
  have b: "rows (filter_by_thresholds 0 0 0
        (example_table [example_row ''c'' None (Fin (- 5)) (Fin (- 2)) (Fin 1)]))
      = [example_row ''c'' None (Fin (- 5)) (Fin (- 2)) (Fin 1)]"
    using filter_by_thresholds_keeps
      [of 0 0 0 "example_table [example_row ''c'' None (Fin (- 5)) (Fin (- 2)) (Fin 1)]"]
    by (simp add: example_table_def)
  show ?thesis using a b by simp
qed


section \<open>Conversion: the metadata columns\<close>

lemma rows_assign_scalar [simp]:
  "rows (assign_scalar c v df) = map (set_meta c v) (rows df)"
  by (simp add: assign_scalar_def)

lemma columns_assign_scalar [simp]:
  "columns (assign_scalar c v df) = insert c (columns df)"
  by (simp add: assign_scalar_def)

lemma df_empty_DataFrame:
  "df_empty (DataFrame docs) \<longleftrightarrow> docs = [] \<or> (\<forall>d \<in> set docs. dom d = {})"
  by (auto simp: df_empty_def DataFrame_def)

text \<open>
  Claim C10. For a non-empty list of documents of which at least one has a key (a
  document read from the store always has one: its identifier, and after the merge its
  category), the converted table has one row per document, has the four metadata
  columns, and every row holds in them what \<open>get\<close> returns on the first document:
  its value, or null where the first document lacks the key. What the other documents
  hold under these keys is overwritten.
\<close>

theorem convert_metadata_from_first:
  assumes "analysis_data = first_doc # others"
    and "\<exists>d \<in> set analysis_data. dom d \<noteq> {}"
  shows "\<exists>df. convert_analysis_to_dataframe analysis_data = Some df
     \<and> length (rows df) = length analysis_data
     \<and> {''analysis_date'', ''analysis_period_days'', ''analysis_start_date'',
         ''analysis_end_date''} \<subseteq> columns df
     \<and> (\<forall>r \<in> set (rows df).
           analysis_date r = get_key first_doc ''analysis_date''
         \<and> analysis_period_days r = get_key first_doc ''analysis_period_days''
         \<and> analysis_start_date r = get_key first_doc ''analysis_start_date''
         \<and> analysis_end_date r = get_key first_doc ''analysis_end_date'')"
proof -
  have ne: "\<not> df_empty (DataFrame analysis_data)"
    using assms by (auto simp: df_empty_DataFrame)
  define df where "df =
    assign_scalar ''analysis_end_date'' (get_key first_doc ''analysis_end_date'')
      (assign_scalar ''analysis_start_date'' (get_key first_doc ''analysis_start_date'')
        (assign_scalar ''analysis_period_days'' (get_key first_doc ''analysis_period_days'')
          (assign_scalar ''analysis_date'' (get_key first_doc ''analysis_date'')
            (DataFrame analysis_data))))"
  have conv: "convert_analysis_to_dataframe analysis_data = Some df"
    using ne assms(1) by (simp add: convert_analysis_to_dataframe_def df_def Let_def)
  have len: "length (rows df) = length analysis_data"
    by (simp add: df_def DataFrame_def)
  have cols: "{''analysis_date'', ''analysis_period_days'', ''analysis_start_date'',
         ''analysis_end_date''} \<subseteq> columns df"
    by (simp add: df_def)
  have vals: "analysis_date r = get_key first_doc ''analysis_date''
         \<and> analysis_period_days r = get_key first_doc ''analysis_period_days''
         \<and> analysis_start_date r = get_key first_doc ''analysis_start_date''
         \<and> analysis_end_date r = get_key first_doc ''analysis_end_date''"
    if "r \<in> set (rows df)" for r
    using that by (auto simp: df_def set_meta_def)
  show ?thesis using conv len cols vals by blast
qed

theorem convert_metadata_from_first_witness:
  "example_docs = hd example_docs # tl example_docs
   \<and> (\<exists>d \<in> set example_docs. dom d \<noteq> {})
   \<and> (\<exists>df. convert_analysis_to_dataframe example_docs = Some df
        \<and> map analysis_date (rows df) = [VDate 20, VDate 20]
        \<and> map analysis_period_days (rows df) = [VNum (Fin 7), VNum (Fin 7)]
        \<and> map analysis_end_date (rows df) = [VNone, VNone])"
proof -
  have h1: "example_docs = hd example_docs # tl example_docs"
    by (simp add: example_docs_def)
  have h2: "\<exists>d \<in> set example_docs. dom d \<noteq> {}"
    by (simp add: example_docs_def)
  obtain df where conv: "convert_analysis_to_dataframe example_docs = Some df"
    and len: "length (rows df) = length example_docs"
    and vals: "\<forall>r \<in> set (rows df).
           analysis_date r = get_key (hd example_docs) ''analysis_date''
         \<and> analysis_period_days r = get_key (hd example_docs) ''analysis_period_days''
         \<and> analysis_start_date r = get_key (hd example_docs) ''analysis_start_date''
         \<and> analysis_end_date r = get_key (hd example_docs) ''analysis_end_date''"
    using convert_metadata_from_first [OF h1 h2] by blast
  have g1: "get_key (hd example_docs) ''analysis_date'' = VDate 20"
    and g2: "get_key (hd example_docs) ''analysis_period_days'' = VNum (Fin 7)"
    and g3: "get_key (hd example_docs) ''analysis_end_date'' = VNone"
    by (simp_all add: example_docs_def get_key_def)
  have l2: "length (rows df) = 2"
    using len by (simp add: example_docs_def)
  then obtain r1 r2 where rs: "rows df = [r1, r2]"
    by (metis (no_types) length_0_conv length_Suc_conv numeral_2_eq_2)
  show ?thesis
    using h1 h2 conv vals g1 g2 g3 rs by auto
qed


section \<open>Merge: the documents are updated in place\<close>

lemma merged_doc_idem: "merged_doc cats (merged_doc cats d) = merged_doc cats d"
  by (simp add: merged_doc_def get_key_def)

lemma merge_loop_notin: "a \<notin> set as \<Longrightarrow> merge_loop cats as s a = s a"
  by (induction as arbitrary: s) (auto simp: Let_def)

lemma merge_loop_step:
  "merge_loop cats (a # as) s = merge_loop cats as (s(a := merged_doc cats (s a)))"
  by (cases "cats (get_key (s a) ''full_name'')") (simp_all add: merged_doc_def Let_def)

lemma merge_loop_in:
  "a \<in> set as \<Longrightarrow> merge_loop cats as s a = merged_doc cats (s a)"
proof (induction as arbitrary: s)
  case Nil
  then show ?case by simp
next
  case (Cons b bs)
  let ?s = "s(b := merged_doc cats (s b))"
  show ?case
  proof (cases "a \<in> set bs")
    case True
    then have "merge_loop cats bs ?s a = merged_doc cats (?s a)"
      by (rule Cons.IH)
    then show ?thesis
      by (simp add: merge_loop_step merged_doc_idem del: merge_loop.simps)
  next
    case False
    with Cons.prems have "a = b" by simp
    then show ?thesis using False
      by (simp add: merge_loop_step merge_loop_notin del: merge_loop.simps)
  qed
qed

lemma merge_loop_eq:
  "merge_loop cats as s a = (if a \<in> set as then merged_doc cats (s a) else s a)"
  by (simp add: merge_loop_in merge_loop_notin)

text \<open>
  Claim C8 says that the merge leaves the retrieved documents as they were and builds a
  separate merged batch. The loop writes into the retrieved dicts and the function
  returns the very list it read: in the first end-to-end scenario the retrieved document
  of \<open>a/b\<close> has a null category before the merge and \<open>ml\<close> after it.
\<close>

theorem merge_mutates_counterexample:
  "fst (merge_categories example_index [0] example_store) = [0]
   \<and> example_store 0 ''category'' = Some VNone
   \<and> snd (merge_categories example_index [0] example_store) 0 ''category'' = Some (VStr ''ml'')
   \<and> snd (merge_categories example_index [0] example_store) 0 \<noteq> example_store 0"
proof -
  have a: "example_store 0 ''category'' = Some VNone"
    by (simp add: example_store_def)
  have b: "snd (merge_categories example_index [0] example_store) 0 ''category''
             = Some (VStr ''ml'')"
    by (simp add: merge_categories_def example_store_def example_index_def get_key_def)
  have "snd (merge_categories example_index [0] example_store) 0 ''category''
          \<noteq> example_store 0 ''category''"
    unfolding a b by simp
  then have c: "snd (merge_categories example_index [0] example_store) 0 \<noteq> example_store 0"
    by metis
  show ?thesis using a b c by (simp add: merge_categories_def)
qed

text \<open>
  Claim C8, amended. The merge works in place: it returns the list of documents it was
  given, and each of these documents is changed at the key \<open>category\<close> only, which
  afterwards holds the index's entry for the document's full name, or null when the
  index has none. Every other key of a retrieved document, and every document outside
  the batch, is as before.
\<close>

theorem merge_in_place:
  assumes "merge_categories repo_categories latest_analysis s = (merged, s')"
  shows "merged = latest_analysis
     \<and> (\<forall>a. a \<notin> set latest_analysis \<longrightarrow> s' a = s a)
     \<and> (\<forall>a \<in> set latest_analysis.
           (\<forall>k. k \<noteq> ''category'' \<longrightarrow> s' a k = s a k)
         \<and> s' a ''category'' =
             Some (case repo_categories (get_key (s a) ''full_name'') of
                     Some c \<Rightarrow> c | None \<Rightarrow> VNone))"
proof -
  have m: "merged = latest_analysis" and s': "s' = merge_loop repo_categories latest_analysis s"
    using assms by (auto simp: merge_categories_def)
  have out: "s' a = s a" if "a \<notin> set latest_analysis" for a
    using that by (simp add: s' merge_loop_eq)
  have inn: "(\<forall>k. k \<noteq> ''category'' \<longrightarrow> s' a k = s a k)
         \<and> s' a ''category'' =
             Some (case repo_categories (get_key (s a) ''full_name'') of
                     Some c \<Rightarrow> c | None \<Rightarrow> VNone)"
    if "a \<in> set latest_analysis" for a
    using that by (simp add: s' merge_loop_eq merged_doc_def)
  show ?thesis using m out inn by blast
qed

theorem merge_in_place_witness:
  "merge_categories example_index [0] example_store
     = ([0], snd (merge_categories example_index [0] example_store))
   \<and> (1::nat) \<notin> set [0] \<and> (0::nat) \<in> set [0] \<and> ''star_growth'' \<noteq> ''category''
   \<and> snd (merge_categories example_index [0] example_store) 1 = example_store 1
   \<and> snd (merge_categories example_index [0] example_store) 0 ''star_growth''
       = Some (VNum (Fin 10))
   \<and> snd (merge_categories example_index [0] example_store) 0 ''category''
       = Some (VStr ''ml'')"
proof -
  define s' where "s' = snd (merge_categories example_index [0] example_store)"
  have h: "merge_categories example_index [0] example_store = ([0], s')"
    by (simp add: s'_def merge_categories_def)
  note t = merge_in_place [OF h]
  have a: "s' 1 = example_store 1"
    using t by simp
  have "s' 0 ''star_growth'' = example_store 0 ''star_growth''"
    using t by simp
  then have b: "s' 0 ''star_growth'' = Some (VNum (Fin 10))"
    by (simp add: example_store_def)
  have "s' 0 ''category'' =
      Some (case example_index (get_key (example_store 0) ''full_name'') of
              Some c \<Rightarrow> c | None \<Rightarrow> VNone)"
    using t by simp
  then have c: "s' 0 ''category'' = Some (VStr ''ml'')"
    by (simp add: example_store_def example_index_def get_key_def)
  show ?thesis using h a b c unfolding s'_def by simp
qed


section \<open>The data path: records without a full name\<close>


lemma normalize_row_text [simp]:
  "full_name (normalize_row cols r) = full_name r"
  "category (normalize_row cols r) = category r"
  by (simp_all add: normalize_row_def)

lemma set_meta_text [simp]:
  "full_name (set_meta c v r) = full_name r"
  "category (set_meta c v r) = category r"
  by (simp_all add: set_meta_def)















section \<open>Category breakdown: a total star flow of zero\<close>

text \<open>
  Claim C1 says that a total star flow of 0 is caught by a branch that reports 0 percent
  for every category. The code has no such branch: it divides by the total as it is.
  For one record whose star growth is 0 the total is 0 and the percentage is a missing
  value (0 / 0); for two categories whose flows 5 and -5 cancel, the total is 0 and the
  percentages are plus and minus infinity.
\<close>

theorem star_flow_percent_undefined:
  "category_breakdown zero_flow_table =
     Some [\<lparr>Category = ''Ml'', Count = 1, Percentage = Fin 100, Star_Flow = Fin 0,
            Percent_of_Star_Flow = NaN\<rparr>]
   \<and> category_breakdown cancelling_flow_table =
     Some [\<lparr>Category = ''Web'', Count = 1, Percentage = Fin 50, Star_Flow = Fin 5,
            Percent_of_Star_Flow = PInf\<rparr>,
           \<lparr>Category = ''Ml'', Count = 1, Percentage = Fin 50, Star_Flow = Fin (- 5),
            Percent_of_Star_Flow = NInf\<rparr>]"
proof -
  have g: "\<not> df_empty zero_flow_table \<and> ''category'' \<in> columns zero_flow_table"
    "\<not> df_empty cancelling_flow_table \<and> ''category'' \<in> columns cancelling_flow_table"
    by (simp_all add: df_empty_def zero_flow_table_def cancelling_flow_table_def
        example_table_def example_columns_def)
  have z: "category_stats zero_flow_table =
     [\<lparr>Category = ''Ml'', Count = 1, Percentage = Fin 100, Star_Flow = Fin 0,
       Percent_of_Star_Flow = NaN\<rparr>]"
    by code_simp
  have c: "category_stats cancelling_flow_table =
     [\<lparr>Category = ''Web'', Count = 1, Percentage = Fin 50, Star_Flow = Fin 5,
       Percent_of_Star_Flow = PInf\<rparr>,
      \<lparr>Category = ''Ml'', Count = 1, Percentage = Fin 50, Star_Flow = Fin (- 5),
       Percent_of_Star_Flow = NInf\<rparr>]"
    by code_simp
  show ?thesis
    using g by (simp add: category_breakdown_def z c)
qed


section \<open>Filters: the category selection\<close>

text \<open>
  Claim C4 says that the category filter compares case-insensitively. The code
  lower-cases the chosen options and then matches exactly, which finds a stored category
  only when it is stored in lower case. With the categories \<open>ML\<close> and \<open>web\<close> the
  options are \<open>Ml\<close> and \<open>Web\<close>; choosing \<open>Ml\<close> filters on \<open>ml\<close> and the
  \<open>ML\<close> record, which the claim keeps, is dropped: no row is left.
\<close>

theorem category_filter_exact_match:
  "categories_capitalized mixed_case_table = [''Ml'', ''Web'']
   \<and> selected_categories mixed_case_table [''Ml''] = [''ml'']
   \<and> rows (filter_by_category mixed_case_table [''Ml'']) = []
   \<and> rows (filter_by_category mixed_case_table [''Web'']) =
       [example_row ''c/d'' (Some ''web'') (Fin 20) (Fin 7) (Fin 9)]"
proof -
  have a: "categories_capitalized mixed_case_table = [''Ml'', ''Web'']"
    by code_simp
  have b: "selected_categories mixed_case_table [''Ml''] = [''ml'']"
    by code_simp
  have c: "rows (filter_by_category mixed_case_table [''Ml'']) = []"
    by code_simp
  have d: "rows (filter_by_category mixed_case_table [''Web'']) =
       [example_row ''c/d'' (Some ''web'') (Fin 20) (Fin 7) (Fin 9)]"
    by code_simp
  show ?thesis using a b c d by simp
qed


section \<open>Top performers: the first seen wins\<close>

lemma ahead_trans: "ahead key p q \<Longrightarrow> ahead key q r \<Longrightarrow> ahead key p r"
  by (auto simp: ahead_def)

lemma first_max_mem: "first_max key best xs \<in> insert best (set xs)"
  by (induction xs arbitrary: best) auto

lemma first_max_ahead:
  assumes "\<forall>y \<in> set xs. fst best < fst y"
    and "sorted_wrt (\<lambda>p q. fst p < fst q) xs"
  shows "\<forall>y \<in> insert best (set xs).
           y = first_max (\<lambda>p. key (snd p)) best xs \<or> ahead key (first_max (\<lambda>p. key (snd p)) best xs) y"
  using assms
proof (induction xs arbitrary: best)
  case Nil
  then show ?case by simp
next
  case (Cons x xs)
  let ?k = "\<lambda>p. key (snd p)"
  let ?b = "if ?k best < ?k x then x else best"
  let ?r = "first_max ?k ?b xs"
  have lt: "fst best < fst x" and ltxs: "\<forall>y \<in> set xs. fst x < fst y"
    and srt: "sorted_wrt (\<lambda>p q. fst p < fst q) xs"
    using Cons.prems by auto
  have inv: "\<forall>y \<in> set xs. fst ?b < fst y"
    using Cons.prems by auto
  have IH: "\<forall>y \<in> insert ?b (set xs). y = ?r \<or> ahead key ?r y"
    using Cons.IH [OF inv srt] .
  have rb: "?b = ?r \<or> ahead key ?r ?b"
    using IH by blast
  have dropped: "best = ?r \<or> ahead key ?r best" "x = ?r \<or> ahead key ?r x"
  proof -
    show "best = ?r \<or> ahead key ?r best"
    proof (cases "?k best < ?k x")
      case True
      then have "ahead key x best" by (simp add: ahead_def)
      then show ?thesis using rb True by (auto intro: ahead_trans)
    next
      case False
      then show ?thesis using rb by simp
    qed
    show "x = ?r \<or> ahead key ?r x"
    proof (cases "?k best < ?k x")
      case True
      then show ?thesis using rb by simp
    next
      case False
      then have "ahead key best x" using lt by (auto simp: ahead_def)
      then show ?thesis using rb False by (auto intro: ahead_trans)
    qed
  qed
  show ?case
    using IH dropped by auto
qed

lemma sorted_wrt_remove1: "sorted_wrt P xs \<Longrightarrow> sorted_wrt P (remove1 x xs)"
  by (induction xs) (auto dest: notin_set_remove1)

lemma index_sorted_distinct:
  "sorted_wrt (\<lambda>p q. fst p < (fst q :: nat)) xs \<Longrightarrow> distinct xs"
  by (induction xs) auto

lemma select_largest_props:
  assumes "sorted_wrt (\<lambda>p q. fst p < fst q) xs"
  shows "length (select_largest n (\<lambda>p. key (snd p)) xs) = min n (length xs)
     \<and> set (select_largest n (\<lambda>p. key (snd p)) xs) \<subseteq> set xs
     \<and> sorted_wrt (ahead key) (select_largest n (\<lambda>p. key (snd p)) xs)
     \<and> (\<forall>p \<in> set (select_largest n (\<lambda>p. key (snd p)) xs).
          \<forall>q \<in> set xs - set (select_largest n (\<lambda>p. key (snd p)) xs). ahead key p q)"
  using assms
proof (induction n arbitrary: xs)
  case 0
  then show ?case by simp
next
  case (Suc n)
  let ?k = "\<lambda>p. key (snd p)"
  show ?case
  proof (cases xs)
    case Nil
    then show ?thesis by simp
  next
    case (Cons x xs')
    define b where "b = first_max ?k x xs'"
    define ys where "ys = remove1 b xs"
    define rest where "rest = select_largest n ?k ys"
    have sel: "select_largest (Suc n) ?k xs = b # rest"
      by (simp add: Cons b_def ys_def rest_def Let_def)
    have srt: "sorted_wrt (\<lambda>p q. fst p < fst q) xs'" and lt: "\<forall>y \<in> set xs'. fst x < fst y"
      using Suc.prems Cons by auto
    have bmem: "b \<in> set xs"
      using first_max_mem [of ?k x xs'] by (simp add: b_def Cons)
    have best: "\<forall>y \<in> set xs. y = b \<or> ahead key b y"
      using first_max_ahead [OF lt srt, of key] by (simp add: b_def Cons)
    have dist: "distinct xs"
      using Suc.prems by (rule index_sorted_distinct)
    have ys_set: "set ys = set xs - {b}"
      using dist by (simp add: ys_def)
    have ys_len: "length ys = length xs - 1"
      using bmem by (simp add: ys_def length_remove1)
    have ys_srt: "sorted_wrt (\<lambda>p q. fst p < fst q) ys"
      unfolding ys_def using Suc.prems by (rule sorted_wrt_remove1)
    note IH = Suc.IH [OF ys_srt, folded rest_def]
    have len: "length rest = min n (length ys)"
      and sub: "set rest \<subseteq> set ys"
      and rsrt: "sorted_wrt (ahead key) rest"
      and top: "\<forall>p \<in> set rest. \<forall>q \<in> set ys - set rest. ahead key p q"
      using IH by blast+
    have xs_len: "length xs = Suc (length xs')"
      using Cons by simp
    have 1: "length (b # rest) = min (Suc n) (length xs)"
      using len ys_len unfolding xs_len by simp
    have 2: "set (b # rest) \<subseteq> set xs"
      using bmem sub ys_set by auto
    have behind: "\<forall>y \<in> set rest. ahead key b y"
      using sub ys_set best by blast
    have 3: "sorted_wrt (ahead key) (b # rest)"
      using behind rsrt by simp
    have 4: "\<forall>p \<in> set (b # rest). \<forall>q \<in> set xs - set (b # rest). ahead key p q"
    proof (intro ballI)
      fix p q
      assume p: "p \<in> set (b # rest)" and q: "q \<in> set xs - set (b # rest)"
      have qb: "q \<noteq> b" and qys: "q \<in> set ys - set rest"
        using q ys_set by auto
      show "ahead key p q"
      proof (cases "p = b")
        case True
        then show ?thesis using best q qb by blast
      next
        case False
        then have "p \<in> set rest" using p by simp
        then show ?thesis using top qys by blast
      qed
    qed
    show ?thesis
      unfolding sel using 1 2 3 4 by blast
  qed
qed

lemma enumerate_index_sorted: "sorted_wrt (\<lambda>p q. fst p < fst q) (enumerate k xs)"
  by (induction xs arbitrary: k) (auto simp: in_set_enumerate_eq)

lemma nlargest_select:
  "nlargest n col df =
     select_largest n (\<lambda>p. cell_rank (col (snd p))) (enumerate 0 (rows df))"
  by (simp add: nlargest_def split_def)

lemma cell_rank_finite: "cell_rank (Fin x) < cell_rank (Fin y) \<longleftrightarrow> x < y"
  by simp

lemma metric_column_cases:
  "metric_column m =
     (\<lambda>r. case m of Growth_Percent \<Rightarrow> growth_percent r | Star_Growth \<Rightarrow> star_growth r)"
  by (cases m) simp_all

text \<open>
  Claim C7. The two tables of top performers are \<open>top_n\<close> at 5, by growth
  percentage and by star growth, when the table has the columns they show. \<open>top_n\<close>
  returns exactly \<open>min n |batch|\<close> records, each with its position
  in the batch; they are in descending order of the chosen metric, the growth percentage
  or the star growth, records with equal values in their original order; and every
  record left out has a smaller value than every record returned, or the same value at
  a later position: the first seen wins. The order of the metric is the order of
  \<open>cell_rank\<close>, which on finite numbers is the numeric order, so that of two returned
  records with finite values the earlier one has the larger or the same value.
\<close>

theorem top_n_first_seen:
  "top_growth df =
     (if set top_growth_columns \<subseteq> columns df
      then Inr (map capitalize_category (top_n df Growth_Percent 5)) else Inl KeyError)
   \<and> top_stars df =
     (if set top_stars_columns \<subseteq> columns df
      then Inr (map capitalize_category (top_n df Star_Growth 5)) else Inl KeyError)
   \<and> length (top_n df m n) = min n (length (rows df))
   \<and> (\<forall>p \<in> set (top_n df m n). fst p < length (rows df) \<and> snd p = rows df ! fst p)
   \<and> sorted_wrt
        (ahead (\<lambda>r. cell_rank (case m of Growth_Percent \<Rightarrow> growth_percent r
                                          | Star_Growth \<Rightarrow> star_growth r)))
        (top_n df m n)
   \<and> (\<forall>p \<in> set (top_n df m n). \<forall>q \<in> set (enumerate 0 (rows df)) - set (top_n df m n).
        ahead (\<lambda>r. cell_rank (case m of Growth_Percent \<Rightarrow> growth_percent r
                                         | Star_Growth \<Rightarrow> star_growth r)) p q)
   \<and> (\<forall>x y. cell_rank (Fin x) < cell_rank (Fin y) \<longleftrightarrow> x < y)
   \<and> (\<forall>i j x y. i < j \<and> j < length (top_n df m n)
         \<and> (case m of Growth_Percent \<Rightarrow> growth_percent (snd (top_n df m n ! i))
                     | Star_Growth \<Rightarrow> star_growth (snd (top_n df m n ! i))) = Fin x
         \<and> (case m of Growth_Percent \<Rightarrow> growth_percent (snd (top_n df m n ! j))
                     | Star_Growth \<Rightarrow> star_growth (snd (top_n df m n ! j))) = Fin y
         \<longrightarrow> y \<le> x)"
proof -
  let ?val = "\<lambda>r. case m of Growth_Percent \<Rightarrow> growth_percent r | Star_Growth \<Rightarrow> star_growth r"
  let ?key = "\<lambda>r. cell_rank (?val r)"
  have eq: "top_n df m n = select_largest n (\<lambda>p. ?key (snd p)) (enumerate 0 (rows df))"
    by (simp add: top_n_def nlargest_select metric_column_cases)
  note props = select_largest_props [OF enumerate_index_sorted, of n ?key 0 "rows df",
      folded eq]
  have len: "length (top_n df m n) = min n (length (rows df))"
    using props by simp
  have sub: "set (top_n df m n) \<subseteq> set (enumerate 0 (rows df))"
    using props by blast
  have pos: "\<forall>p \<in> set (top_n df m n). fst p < length (rows df) \<and> snd p = rows df ! fst p"
  proof
    fix p assume "p \<in> set (top_n df m n)"
    then have "(fst p, snd p) \<in> set (enumerate 0 (rows df))"
      using sub by auto
    then show "fst p < length (rows df) \<and> snd p = rows df ! fst p"
      by (simp add: in_set_enumerate_eq)
  qed
  have srt: "sorted_wrt (ahead ?key) (top_n df m n)"
    using props by blast
  have top: "\<forall>p \<in> set (top_n df m n). \<forall>q \<in> set (enumerate 0 (rows df)) - set (top_n df m n).
        ahead ?key p q"
    using props by blast
  have desc: "y \<le> x"
    if "i < j" and "j < length (top_n df m n)"
      and "?val (snd (top_n df m n ! i)) = Fin x" and "?val (snd (top_n df m n ! j)) = Fin y"
    for i j x y
  proof -
    have "ahead ?key (top_n df m n ! i) (top_n df m n ! j)"
      using srt that(1,2) by (rule sorted_wrt_nth_less)
    then have "cell_rank (Fin y) < cell_rank (Fin x) \<or> cell_rank (Fin x) = cell_rank (Fin y)"
      using that(3,4) by (auto simp: ahead_def)
    then show ?thesis by auto
  qed
  have call:
    "top_growth df =
       (if set top_growth_columns \<subseteq> columns df
        then Inr (map capitalize_category (top_n df Growth_Percent 5)) else Inl KeyError)"
    "top_stars df =
       (if set top_stars_columns \<subseteq> columns df
        then Inr (map capitalize_category (top_n df Star_Growth 5)) else Inl KeyError)"
    by (simp_all only: top_growth_def top_stars_def top_n_def metric_column.simps)
  have rest: "length (top_n df m n) = min n (length (rows df))
   \<and> (\<forall>p \<in> set (top_n df m n). fst p < length (rows df) \<and> snd p = rows df ! fst p)
   \<and> sorted_wrt (ahead ?key) (top_n df m n)
   \<and> (\<forall>p \<in> set (top_n df m n). \<forall>q \<in> set (enumerate 0 (rows df)) - set (top_n df m n).
        ahead ?key p q)
   \<and> (\<forall>x y. cell_rank (Fin x) < cell_rank (Fin y) \<longleftrightarrow> x < y)
   \<and> (\<forall>i j x y. i < j \<and> j < length (top_n df m n)
         \<and> ?val (snd (top_n df m n ! i)) = Fin x \<and> ?val (snd (top_n df m n ! j)) = Fin y
         \<longrightarrow> y \<le> x)"
    using len pos srt top cell_rank_finite desc by blast
  show ?thesis
    by (rule conjI [OF call(1) conjI [OF call(2) rest]])
qed

text \<open>
  Four records with star growths 5, 100, 7, 100 and growth percentages 30, 10, 70, 20:
  the top 3 by star growth are the two at 100 in their original order and then the one
  at 7; the top 2 by growth percentage are those at 70 and 30. The record at 5, left
  out of the first, is behind the first record returned. And the fourth end-to-end
  scenario: of \<open>X\<close> and \<open>Y\<close>, tied at 100 in this order, the top 1 is \<open>X\<close>.
\<close>

theorem top_n_first_seen_witness:
  "top_n ranked_table Star_Growth 3
     = [(1, example_row ''X'' (Some ''ml'') (Fin 10) (Fin 100) (Fin 500)),
        (3, example_row ''Y'' (Some ''web'') (Fin 20) (Fin 100) (Fin 300)),
        (2, example_row ''C'' None (Fin 70) (Fin 7) (Fin 500))]
   \<and> map fst (top_n ranked_table Growth_Percent 2) = [2, 0]
   \<and> top_n tied_table Star_Growth 1
       = [(0, example_row ''X'' (Some ''ml'') (Fin 10) (Fin 100) (Fin 500))]
   \<and> (1, example_row ''X'' (Some ''ml'') (Fin 10) (Fin 100) (Fin 500))
       \<in> set (top_n ranked_table Star_Growth 3)
   \<and> (0, example_row ''A'' (Some ''ml'') (Fin 30) (Fin 5) (Fin 500))
       \<in> set (enumerate 0 (rows ranked_table)) - set (top_n ranked_table Star_Growth 3)
   \<and> length (top_n ranked_table Star_Growth 3) = min 3 (length (rows ranked_table))
   \<and> ahead (\<lambda>r. cell_rank (star_growth r))
       (1, example_row ''X'' (Some ''ml'') (Fin 10) (Fin 100) (Fin 500))
       (0, example_row ''A'' (Some ''ml'') (Fin 30) (Fin 5) (Fin 500))"
proof -
  let ?A = "example_row ''A'' (Some ''ml'') (Fin 30) (Fin 5) (Fin 500)"
  let ?X = "example_row ''X'' (Some ''ml'') (Fin 10) (Fin 100) (Fin 500)"
  let ?C = "example_row ''C'' None (Fin 70) (Fin 7) (Fin 500)"
  let ?Y = "example_row ''Y'' (Some ''web'') (Fin 20) (Fin 100) (Fin 300)"
  have ev: "top_n ranked_table Star_Growth 3 = [(1, ?X), (3, ?Y), (2, ?C)]"
    by code_simp
  have ev2: "map fst (top_n ranked_table Growth_Percent 2) = [2, 0]"
    by code_simp
  have ev3: "top_n tied_table Star_Growth 1 = [(0, ?X)]"
    by code_simp
  have en: "enumerate 0 (rows ranked_table) = [(0, ?A), (1, ?X), (2, ?C), (3, ?Y)]"
    by (simp add: ranked_table_def example_table_def)
  have p: "(1, ?X) \<in> set (top_n ranked_table Star_Growth 3)"
    unfolding ev by simp
  have q: "(0, ?A) \<in> set (enumerate 0 (rows ranked_table)) - set (top_n ranked_table Star_Growth 3)"
    unfolding ev en by simp
  note t = top_n_first_seen [of ranked_table Star_Growth 3]
  have len: "length (top_n ranked_table Star_Growth 3) = min 3 (length (rows ranked_table))"
    using t by blast
  have "\<forall>p \<in> set (top_n ranked_table Star_Growth 3).
          \<forall>q \<in> set (enumerate 0 (rows ranked_table)) - set (top_n ranked_table Star_Growth 3).
            ahead (\<lambda>r. cell_rank (case Star_Growth of Growth_Percent \<Rightarrow> growth_percent r
                                          | Star_Growth \<Rightarrow> star_growth r)) p q"
    using t by blast
  then have "ahead (\<lambda>r. cell_rank (case Star_Growth of Growth_Percent \<Rightarrow> growth_percent r
                                          | Star_Growth \<Rightarrow> star_growth r)) (1, ?X) (0, ?A)"
    using p q by blast
  then have a: "ahead (\<lambda>r. cell_rank (star_growth r)) (1, ?X) (0, ?A)"
    by simp
  show ?thesis
    using ev ev2 ev3 p q len a by (intro conjI)
qed


section \<open>Category breakdown: entries and percentages of rows\<close>

lemma set_unique_vals [simp]: "set (unique_vals xs) = set xs"
  by (simp add: unique_vals_def)

lemma distinct_unique_vals [simp]: "distinct (unique_vals xs)"
  by (simp add: unique_vals_def)

lemma set_dropna_category:
  "set (dropna_category rs) = {c. \<exists>r \<in> set rs. category r = Some c}"
  by (induction rs) (auto simp: dropna_category_def List.map_filter_def)

lemma count_dropna_category:
  "count_list (dropna_category rs) c = length (filter (\<lambda>r. category r = Some c) rs)"
  by (induction rs) (auto simp: dropna_category_def List.map_filter_def)

lemma length_dropna_category:
  "length (dropna_category rs) = length (filter (\<lambda>r. category r \<noteq> None) rs)"
  by (induction rs) (auto simp: dropna_category_def List.map_filter_def)

lemma set_value_counts:
  "set (value_counts cs) = (\<lambda>c. (c, count_list cs c)) ` set cs"
  by (simp add: value_counts_def)

lemma distinct_value_counts: "distinct (map fst (value_counts cs))"
proof -
  have "mset (value_counts cs) = mset (map (\<lambda>c. (c, count_list cs c)) (unique_vals cs))"
    unfolding value_counts_def by (rule mset_sort)
  then have "image_mset fst (mset (value_counts cs))
      = image_mset fst (mset (map (\<lambda>c. (c, count_list cs c)) (unique_vals cs)))"
    by (rule arg_cong)
  then have "mset (map fst (value_counts cs)) = mset (unique_vals cs)"
    by (simp add: image_mset.compositionality comp_def)
  then show ?thesis
    using mset_eq_imp_distinct_iff distinct_unique_vals by blast
qed

lemma set_fst_value_counts: "set (map fst (value_counts cs)) = set cs"
  by (force simp: set_value_counts)

lemma snd_value_counts: "p \<in> set (value_counts cs) \<Longrightarrow> snd p = count_list cs (fst p)"
  by (auto simp: set_value_counts)

lemma sum_counts:
  assumes "distinct cats" and "set cats = set cs"
  shows "sum_list (map (count_list cs) cats) = length cs"
proof -
  have "sum_list (map (count_list cs) cats) = sum (count_list cs) (set cats)"
    using assms(1) by (rule sum_list_distinct_conv_sum_set)
  also have "\<dots> = length cs"
    using assms(2) by (simp add: sum_count_set)
  finally show ?thesis .
qed

lemma round_to_1_close: "\<bar>round_to 1 x - x\<bar> \<le> 1 / 20"
proof -
  have "\<bar>of_int (rint (x * 10)) - x * 10\<bar> \<le> 1 / 2"
    by (rule rint_close)
  then show ?thesis
    by (simp add: round_to_def abs_if split: if_splits) 
qed

lemma sum_list_close:
  fixes f g :: "'a \<Rightarrow> rat"
  assumes "\<And>x. x \<in> set xs \<Longrightarrow> \<bar>f x - g x\<bar> \<le> e"
  shows "\<bar>sum_list (map f xs) - sum_list (map g xs)\<bar> \<le> of_nat (length xs) * e"
  using assms
proof (induction xs)
  case Nil
  then show ?case by simp
next
  case (Cons x xs)
  have a: "\<bar>f x - g x\<bar> \<le> e" using Cons.prems by simp
  have b: "\<bar>sum_list (map f xs) - sum_list (map g xs)\<bar> \<le> of_nat (length xs) * e"
    using Cons by simp
  have "\<bar>sum_list (map f (x # xs)) - sum_list (map g (x # xs))\<bar>
          \<le> \<bar>f x - g x\<bar> + \<bar>sum_list (map f xs) - sum_list (map g xs)\<bar>"
    by simp
  also have "\<dots> \<le> e + of_nat (length xs) * e"
    using a b by (rule add_mono)
  finally show ?case by (simp add: algebra_simps)
qed

lemma percent_of_finite:
  "b \<noteq> 0 \<Longrightarrow> percent_of (Fin a) (Fin b) = Fin (round_to 1 (a / b * 100))"
  by (simp add: percent_of_def)

text \<open>
  Claim C2 wants an entry for the null category and percentages that sum to 100 within
  0.1. A record without category gets no entry, while it still counts in the number of
  rows: with one record in \<open>ml\<close> and one without category the breakdown is the single
  entry \<open>Ml\<close> at 50 percent. And with six categories of one record each, every
  percentage is 16.7 and the sum is 100.2.
\<close>

theorem category_breakdown_counterexample:
  "category_breakdown uncategorized_table =
     Some [\<lparr>Category = ''Ml'', Count = 1, Percentage = Fin 50, Star_Flow = Fin 5,
            Percent_of_Star_Flow = Fin 100\<rparr>]
   \<and> map category (rows uncategorized_table) = [Some ''ml'', None]
   \<and> map Percentage (category_stats six_categories_table) = replicate 6 (Fin (167 / 10))
   \<and> cell_sum (map Percentage (category_stats six_categories_table)) = Fin (100 + 2 / 10)"
proof -
  have g: "\<not> df_empty uncategorized_table \<and> ''category'' \<in> columns uncategorized_table"
    by (simp add: df_empty_def uncategorized_table_def example_table_def example_columns_def)
  have a: "category_stats uncategorized_table =
     [\<lparr>Category = ''Ml'', Count = 1, Percentage = Fin 50, Star_Flow = Fin 5,
       Percent_of_Star_Flow = Fin 100\<rparr>]"
    by code_simp
  have b: "map category (rows uncategorized_table) = [Some ''ml'', None]"
    by (simp add: uncategorized_table_def example_table_def example_row_def)
  have c: "map Percentage (category_stats six_categories_table) = replicate 6 (Fin (167 / 10))"
    by code_simp
  have d: "cell_sum (map Percentage (category_stats six_categories_table)) = Fin (100 + 2 / 10)"
    by code_simp
  show ?thesis
    using g b c d by (simp add: category_breakdown_def a)
qed

text \<open>
  Claim C2, amended. For a non-empty table with a category column the breakdown has
  exactly one entry per distinct non-null category of the table, and none for the
  records without category. The entry of a category holds its capitalized name, the
  number of its records, and 100 times that number over the number of rows (records
  without category included), rounded to 1 decimal. The percentages sum to the share
  of the records that have a category, 100 when all have one, within 0.05 per entry.
\<close>

theorem category_breakdown_entries:
  assumes "rows df \<noteq> []" and "''category'' \<in> columns df"
  shows "\<exists>entries cats. category_breakdown df = Some entries
     \<and> distinct cats \<and> set cats = {c. \<exists>r \<in> set (rows df). category r = Some c}
     \<and> map Category entries = map capitalize_if cats
     \<and> map Count entries = map (category_count (rows df)) cats
     \<and> map Percentage entries =
         map (\<lambda>c. Fin (round_to 1 (of_nat (category_count (rows df) c)
                                     / of_nat (length (rows df)) * 100))) cats
     \<and> \<bar>(\<Sum>c\<leftarrow>cats. round_to 1 (of_nat (category_count (rows df) c)
                                  / of_nat (length (rows df)) * 100))
          - of_nat (length (filter (\<lambda>r. category r \<noteq> None) (rows df)))
              / of_nat (length (rows df)) * 100\<bar>
         \<le> of_nat (length cats) / 20"
proof -
  define cs where "cs = dropna_category (rows df)"
  define cc where "cc = value_counts cs"
  define cats where "cats = map fst cc"
  define N :: rat where "N = of_nat (length (rows df))"
  define exact where "exact = (\<lambda>c. of_nat (category_count (rows df) c) / N * 100)"
  have N: "N \<noteq> 0"
    using assms(1) by (simp add: N_def)
  have ne: "\<not> df_empty df"
    using assms by (auto simp: df_empty_def)
  have bd: "category_breakdown df = Some (category_stats df)"
    using ne assms(2) by (simp add: category_breakdown_def)
  have dist: "distinct cats"
    unfolding cats_def cc_def by (rule distinct_value_counts)
  have setc: "set cats = {c. \<exists>r \<in> set (rows df). category r = Some c}"
    unfolding cats_def cc_def set_fst_value_counts cs_def by (rule set_dropna_category)
  have snd_cc: "snd p = category_count (rows df) (fst p)" if "p \<in> set cc" for p
    using snd_value_counts [of p cs] that
    by (simp add: cc_def cs_def count_dropna_category category_count_def)
  have cat: "map Category (category_stats df) = map capitalize_if cats"
    by (simp add: category_stats_def Let_def cats_def cc_def cs_def split_def comp_def)
  have "map Count (category_stats df) = map snd cc"
    by (simp add: category_stats_def Let_def cc_def cs_def split_def comp_def)
  also have "\<dots> = map (\<lambda>p. category_count (rows df) (fst p)) cc"
    using snd_cc by (intro map_cong) auto
  finally have cnt: "map Count (category_stats df) = map (category_count (rows df)) cats"
    by (simp add: cats_def comp_def)
  have "map Percentage (category_stats df)
          = map (\<lambda>p. percent_of (Fin (of_nat (snd p))) (Fin N)) cc"
    by (simp add: category_stats_def Let_def cc_def cs_def split_def comp_def N_def)
  also have "\<dots> = map (\<lambda>p. Fin (round_to 1 (exact (fst p)))) cc"
    using snd_cc N by (intro map_cong) (auto simp: percent_of_finite exact_def)
  finally have pct: "map Percentage (category_stats df)
          = map (\<lambda>c. Fin (round_to 1 (exact c))) cats"
    by (simp add: cats_def comp_def)
  have "sum_list (map (count_list cs) cats) = length cs"
    using dist by (rule sum_counts) (simp add: cats_def cc_def set_fst_value_counts del: set_map)
  moreover have "count_list cs = category_count (rows df)"
    by (rule ext) (simp add: cs_def count_dropna_category category_count_def)
  ultimately have "sum_list (map (category_count (rows df)) cats)
          = length (filter (\<lambda>r. category r \<noteq> None) (rows df))"
    by (simp add: cs_def length_dropna_category)
  moreover have "(\<Sum>c\<leftarrow>cats. (of_nat (category_count (rows df) c) :: rat))
          = of_nat (sum_list (map (category_count (rows df)) cats))"
    using sum_list_of_nat [of "map (category_count (rows df)) cats", where ?'a = rat]
    by (simp add: comp_def)
  ultimately have "(\<Sum>c\<leftarrow>cats. (of_nat (category_count (rows df) c) :: rat))
          = of_nat (length (filter (\<lambda>r. category r \<noteq> None) (rows df)))"
    by simp
  note total = this
  define k where "k = 100 / N"
  have "exact = (\<lambda>c. of_nat (category_count (rows df) c) * k)"
    by (rule ext) (simp add: exact_def k_def)
  then have "sum_list (map exact cats)
          = (\<Sum>c\<leftarrow>cats. (of_nat (category_count (rows df) c) :: rat)) * k"
    by (simp only: sum_list_mult_const)
  then have ex: "sum_list (map exact cats)
          = of_nat (length (filter (\<lambda>r. category r \<noteq> None) (rows df))) / N * 100"
    unfolding total by (simp add: k_def)
  have "\<bar>sum_list (map (\<lambda>c. round_to 1 (exact c)) cats) - sum_list (map exact cats)\<bar>
          \<le> of_nat (length cats) * (1 / 20)"
    by (rule sum_list_close) (rule round_to_1_close)
  then have sm: "\<bar>(\<Sum>c\<leftarrow>cats. round_to 1 (exact c))
          - of_nat (length (filter (\<lambda>r. category r \<noteq> None) (rows df))) / N * 100\<bar>
         \<le> of_nat (length cats) / 20"
    unfolding ex by simp
  show ?thesis
    using bd dist setc cat cnt pct sm unfolding exact_def N_def
    by (intro exI [of _ "category_stats df"] exI [of _ cats] conjI)
qed

theorem category_breakdown_entries_witness:
  "rows uncategorized_table \<noteq> [] \<and> ''category'' \<in> columns uncategorized_table
   \<and> (\<exists>entries cats. category_breakdown uncategorized_table = Some entries
         \<and> distinct cats \<and> set cats = {''ml''}
         \<and> map Category entries = map capitalize_if cats
         \<and> map Count entries = map (category_count (rows uncategorized_table)) cats
         \<and> category_count (rows uncategorized_table) ''ml'' = 1)"
proof -
  have h1: "rows uncategorized_table \<noteq> []"
    and h2: "''category'' \<in> columns uncategorized_table"
    by (simp_all add: uncategorized_table_def example_table_def example_columns_def)
  have s: "{c. \<exists>r \<in> set (rows uncategorized_table). category r = Some c} = {''ml''}"
    by (auto simp: uncategorized_table_def example_table_def example_row_def)
  have n: "category_count (rows uncategorized_table) ''ml'' = 1"
    by (simp add: category_count_def uncategorized_table_def example_table_def example_row_def)
  obtain entries cats where "category_breakdown uncategorized_table = Some entries"
    and "distinct cats"
    and "set cats = {c. \<exists>r \<in> set (rows uncategorized_table). category r = Some c}"
    and "map Category entries = map capitalize_if cats"
    and "map Count entries = map (category_count (rows uncategorized_table)) cats"
    using category_breakdown_entries [OF h1 h2] by blast
  then have "\<exists>entries cats. category_breakdown uncategorized_table = Some entries
         \<and> distinct cats \<and> set cats = {''ml''}
         \<and> map Category entries = map capitalize_if cats
         \<and> map Count entries = map (category_count (rows uncategorized_table)) cats
         \<and> category_count (rows uncategorized_table) ''ml'' = 1"
    unfolding s using n by (intro exI [of _ entries] exI [of _ cats] conjI)
  with h1 h2 show ?thesis by (intro conjI)
qed


end
